theory Spec2Isabelle
  imports Main
begin

section \<open>Actions and the continuation protocol\<close>

text \<open>
  An action is invoked with the argument references \<open>Args&...\<close>; here the tuple of
  referenced arguments is one value of type \<open>'s\<close>, passed in and returned updated.
  A call returns either a \<open>bool\<close> or something the library never reads.
\<close>

datatype ret = Void | Boolean bool

text \<open>
  What \<open>typeid\<close> distinguishes: a caller's class without virtual functions, a
  caller's class with virtual functions, and the instantiations of the library's class
  templates. \<open>is_polymorphic\<close> is \<open>std::is_polymorphic\<close>: of the library's classes
  only \<open>ExecutionBlock\<close>, which derives from \<open>IExecutionBlock\<close>, has virtual
  functions.
\<close>

datatype type_id =
    class_type nat
  | polymorphic_class_type nat
  | BlockTuple_type "type_id list"
  | IfThen_type type_id type_id
  | IfThenElse_type type_id type_id type_id
  | TryFallback_type type_id type_id
  | ExecutionBlock_type type_id

fun is_polymorphic :: "type_id \<Rightarrow> bool" where
  "is_polymorphic (polymorphic_class_type c) = True"
| "is_polymorphic (ExecutionBlock_type T) = True"
| "is_polymorphic T = False"

text \<open>
  A call operator of a caller-supplied class, with its return type: \<open>bool\<close> or
  \<open>void\<close> (other return types are not modelled). Its body maps the data members and the arguments to the result and to the
  members and the arguments after the call. A class has \<open>operator()(Args&...)\<close>
  alone, or \<open>operator()(Args&...) const\<close> alone (a lambda that is not \<open>mutable\<close>),
  or both, each with its own return type. Call operators with a \<open>&\<close> or \<open>&&\<close>
  qualifier are not modelled.
\<close>

datatype ('q, 's) call_operator =
    bool_operator "'q \<Rightarrow> 's \<Rightarrow> bool \<times> 'q \<times> 's"
  | void_operator "'q \<Rightarrow> 's \<Rightarrow> 'q \<times> 's"

datatype ('q, 's) overloads =
    non_const_only "('q, 's) call_operator"
  | const_only "('q, 's) call_operator"
  | both_overloads "('q, 's) call_operator" "('q, 's) call_operator"

text \<open>
  The callables of the library. \<open>Functor c q ops\<close> is a caller-supplied action of class
  \<open>c\<close> (a lambda's closure type or a struct): \<open>q\<close> are its data members and \<open>ops\<close>
  its call operators (in \<open>both_overloads n c\<close>, \<open>n\<close> is the non-const one).
  \<open>BlockTuple\<close> holds \<open>m_actions\<close>; \<open>IfThen\<close> holds \<open>m_predicate\<close> and
  \<open>m_then\<close>; \<open>IfThenElse\<close> holds \<open>m_predicate\<close>, \<open>m_then\<close> and \<open>m_elseThen\<close>;
  \<open>TryFallback\<close> holds \<open>m_try\<close> and \<open>m_fallback\<close>. All members are held by
  value, as they are when the builders are given temporaries; a builder given an lvalue
  makes the member a reference, which is not modelled.
\<close>

datatype ('q, 's) callable =
    Functor nat 'q "('q, 's) overloads"
  | BlockTuple "('q, 's) callable list"
  | IfThen "('q, 's) callable" "('q, 's) callable"
  | IfThenElse "('q, 's) callable" "('q, 's) callable" "('q, 's) callable"
  | TryFallback "('q, 's) callable" "('q, 's) callable"

text \<open>The type of a callable, as the template arguments of the library's classes.\<close>

fun decltype_of :: "('q, 's) callable \<Rightarrow> type_id" where
  "decltype_of (Functor c q ops) = class_type c"
| "decltype_of (BlockTuple actions) = BlockTuple_type (map decltype_of actions)"
| "decltype_of (IfThen p t) = IfThen_type (decltype_of p) (decltype_of t)"
| "decltype_of (IfThenElse p t e) = IfThenElse_type (decltype_of p) (decltype_of t) (decltype_of e)"
| "decltype_of (TryFallback t f) = TryFallback_type (decltype_of t) (decltype_of f)"

text \<open>\<open>is_block_tuple\<close>, the trait of the source.\<close>

fun is_block_tuple :: "('q, 's) callable \<Rightarrow> bool" where
  "is_block_tuple (BlockTuple actions) = True"
| "is_block_tuple c = False"

text \<open>
  Calling a call operator, and overload resolution: a call through a non-const object
  (and the type computation \<open>std::invoke_result_t<T, Args&...>\<close> on the type \<open>T\<close>
  itself) takes the non-const operator when there is one; a call through a const
  object can take the const operator only.
\<close>

fun apply_operator :: "('q, 's) call_operator \<Rightarrow> 'q \<Rightarrow> 's \<Rightarrow> ret \<times> 'q \<times> 's" where
  "apply_operator (bool_operator f) q s = (case f q s of (b, q', s') \<Rightarrow> (Boolean b, q', s'))"
| "apply_operator (void_operator f) q s = (case f q s of (q', s') \<Rightarrow> (Void, q', s'))"

fun operator_returns_bool :: "('q, 's) call_operator \<Rightarrow> bool" where
  "operator_returns_bool (bool_operator f) = True"
| "operator_returns_bool (void_operator f) = False"

fun non_const_overload :: "('q, 's) overloads \<Rightarrow> ('q, 's) call_operator" where
  "non_const_overload (non_const_only n) = n"
| "non_const_overload (const_only c) = c"
| "non_const_overload (both_overloads n c) = n"

fun const_overload :: "('q, 's) overloads \<Rightarrow> ('q, 's) call_operator option" where
  "const_overload (non_const_only n) = None"
| "const_overload (const_only c) = Some c"
| "const_overload (both_overloads n c) = Some c"

text \<open>
  \<open>returns_bool c\<close> is \<open>detail::returns_bool<std::decay_t<Callable>, Args...>\<close> as
  \<open>detail::Call\<close> computes it: \<open>std::decay_t\<close> removes the \<open>const\<close> of the
  argument, so the trait reads the return type of the call through a non-const object,
  whatever object \<open>Call\<close> was given. The call operators of \<open>IfThen\<close>,
  \<open>IfThenElse\<close> and \<open>TryFallback\<close> return \<open>bool\<close>, that of \<open>BlockTuple\<close>
  returns nothing. \<open>returns_bool_const\<close> is the return type of the call through a
  const object.
\<close>

fun returns_bool :: "('q, 's) callable \<Rightarrow> bool" where
  "returns_bool (Functor c q ops) = operator_returns_bool (non_const_overload ops)"
| "returns_bool (BlockTuple actions) = False"
| "returns_bool (IfThen p t) = True"
| "returns_bool (IfThenElse p t e) = True"
| "returns_bool (TryFallback t f) = True"

fun returns_bool_const :: "('q, 's) callable \<Rightarrow> bool" where
  "returns_bool_const (Functor c q ops) =
    (case const_overload ops of Some operator \<Rightarrow> operator_returns_bool operator | None \<Rightarrow> False)"
| "returns_bool_const (BlockTuple actions) = False"
| "returns_bool_const (IfThen p t) = True"
| "returns_bool_const (IfThenElse p t e) = True"
| "returns_bool_const (TryFallback t f) = False"

text \<open>
  Which calls compile. \<open>compiles c\<close> is about \<open>c(args...)\<close> with \<open>c\<close> not const,
  \<open>compiles_const c\<close> about the same call with \<open>c\<close> const.
  \<^item> \<open>IfThen::operator()\<close> and \<open>IfThenElse::operator()\<close> are \<open>const\<close>: they call
    their members through const objects. The predicate is the condition of an \<open>if\<close>;
    for the other members, \<open>detail::Call\<close> is \<open>return callable(args...)\<close> when the
    trait says \<open>bool\<close>, which needs the call made to return \<open>bool\<close> as well.
  \<^item> \<open>TryFallback::operator()\<close> is not \<open>const\<close>: it cannot be called through a
    const object, and it calls its members through non-const objects, where the trait
    and the call agree.
  \<^item> \<open>BlockTuple::operator()\<close> has a const overload, but its \<open>enable_if\<close> names
    \<open>are_actions_invocable<const BlockTuple<ActionsT...>, ArgsT...>\<close>, which matches
    the undefined primary template only: the const overload is never viable.
\<close>

fun compiles :: "('q, 's) callable \<Rightarrow> bool"
and compiles_const :: "('q, 's) callable \<Rightarrow> bool"
where
  "compiles (Functor c q ops) = True"
| "compiles (BlockTuple actions) = list_all compiles actions"
| "compiles (IfThen p t) = compiles_const (IfThen p t)"
| "compiles (IfThenElse p t e) = compiles_const (IfThenElse p t e)"
| "compiles (TryFallback t f) = (compiles t \<and> compiles f)"
| "compiles_const (Functor c q ops) = (const_overload ops \<noteq> None)"
| "compiles_const (BlockTuple actions) = False"
| "compiles_const (IfThen p t) =
    (compiles_const p \<and> returns_bool_const p
     \<and> compiles_const t \<and> (if returns_bool t then returns_bool_const t else True))"
| "compiles_const (IfThenElse p t e) =
    (compiles_const p \<and> returns_bool_const p
     \<and> compiles_const t \<and> (if returns_bool t then returns_bool_const t else True)
     \<and> compiles_const e \<and> (if returns_bool e then returns_bool_const e else True))"
| "compiles_const (TryFallback t f) = False"

text \<open>
  The value of a call used as the condition of an \<open>if\<close>; the second equation makes
  the function total (\<open>compiles\<close> excludes it).
\<close>

fun truth :: "ret \<Rightarrow> bool" where
  "truth (Boolean b) = b"
| "truth Void = False"

text \<open>
  \<open>invoke c s\<close> is \<open>c(args...)\<close> through a non-const object, \<open>invoke_const c s\<close>
  the same call through a const object: the result, the callable after the call and
  the arguments after the call. For the combinators \<open>operator()\<close> forwards to
  \<open>Execute\<close>, whose body is the right-hand side. The members of a const object can
  change only through mutable state; the model writes every member back.
  \<open>Call\<close> is \<open>detail::Call\<close> given a non-const callable, \<open>Call_const\<close> is
  \<open>detail::Call\<close> given a const one: the same trait, the other call.
  \<open>Execute_actions\<close> is the fold expression of the non-const \<open>BlockTuple::Execute\<close>:
  every action in order, results discarded.
  Where a call does not compile (see \<open>compiles\<close>) the functions are made total by
  returning the callable and the arguments as they are; these are the equations of
  \<open>invoke_const\<close> for \<open>BlockTuple\<close> and \<open>TryFallback\<close>, its \<open>None\<close> case for a
  \<open>Functor\<close>, and the \<open>Void\<close> case under \<open>returns_bool\<close> in \<open>Call_const\<close>.
\<close>

fun invoke :: "('q, 's) callable \<Rightarrow> 's \<Rightarrow> ret \<times> ('q, 's) callable \<times> 's"
and invoke_const :: "('q, 's) callable \<Rightarrow> 's \<Rightarrow> ret \<times> ('q, 's) callable \<times> 's"
and Call :: "('q, 's) callable \<Rightarrow> 's \<Rightarrow> bool \<times> ('q, 's) callable \<times> 's"
and Call_const :: "('q, 's) callable \<Rightarrow> 's \<Rightarrow> bool \<times> ('q, 's) callable \<times> 's"
and Execute_actions :: "('q, 's) callable list \<Rightarrow> 's \<Rightarrow> ('q, 's) callable list \<times> 's"
where
  "invoke (Functor c q ops) s =
    (case apply_operator (non_const_overload ops) q s of (r, q', s') \<Rightarrow> (r, Functor c q' ops, s'))"
| "invoke (BlockTuple actions) s =
    (case Execute_actions actions s of (actions', s') \<Rightarrow> (Void, BlockTuple actions', s'))"
| "invoke (IfThen p t) s = invoke_const (IfThen p t) s"
| "invoke (IfThenElse p t e) s = invoke_const (IfThenElse p t e) s"
| "invoke (TryFallback t f) s =
    (case Call t s of (b, t', s1) \<Rightarrow>
      if b then (Boolean True, TryFallback t' f, s1)
      else (case Call f s1 of (b', f', s2) \<Rightarrow> (Boolean b', TryFallback t' f', s2)))"
| "invoke_const (Functor c q ops) s =
    (case const_overload ops of
       Some operator \<Rightarrow>
         (case apply_operator operator q s of (r, q', s') \<Rightarrow> (r, Functor c q' ops, s'))
     | None \<Rightarrow> (Void, Functor c q ops, s))"
| "invoke_const (BlockTuple actions) s = (Void, BlockTuple actions, s)"
| "invoke_const (IfThen p t) s =
    (case invoke_const p s of (r, p', s1) \<Rightarrow>
      if \<not> truth r then (Boolean True, IfThen p' t, s1)
      else (case Call_const t s1 of (b, t', s2) \<Rightarrow> (Boolean b, IfThen p' t', s2)))"
| "invoke_const (IfThenElse p t e) s =
    (case invoke_const p s of (r, p', s1) \<Rightarrow>
      if truth r then (case Call_const t s1 of (b, t', s2) \<Rightarrow> (Boolean b, IfThenElse p' t' e, s2))
      else (case Call_const e s1 of (b, e', s2) \<Rightarrow> (Boolean b, IfThenElse p' t e', s2)))"
| "invoke_const (TryFallback t f) s = (Void, TryFallback t f, s)"
| "Call c s =
    (if returns_bool c
     then (case invoke c s of
             (Boolean b, c', s') \<Rightarrow> (b, c', s')
           | (Void, c', s') \<Rightarrow> (True, c', s'))
     else (case invoke c s of (r, c', s') \<Rightarrow> (True, c', s')))"
| "Call_const c s =
    (if returns_bool c
     then (case invoke_const c s of
             (Boolean b, c', s') \<Rightarrow> (b, c', s')
           | (Void, c', s') \<Rightarrow> (True, c', s'))
     else (case invoke_const c s of (r, c', s') \<Rightarrow> (True, c', s')))"
| "Execute_actions [] s = ([], s)"
| "Execute_actions (a # rest) s =
    (case invoke a s of (r, a', s1) \<Rightarrow>
      (case Execute_actions rest s1 of (rest', s2) \<Rightarrow> (a' # rest', s2)))"

text \<open>
  The actions a callable was composed from: the elements of a sequence (and of the
  sequences in it), the callable itself otherwise. This is not a function of the
  library; it names the actions that executing a sequence has to call.
\<close>

fun actions_of :: "('q, 's) callable \<Rightarrow> ('q, 's) callable list" where
  "actions_of (BlockTuple actions) = concat (map actions_of actions)"
| "actions_of (Functor c q ops) = [Functor c q ops]"
| "actions_of (IfThen p t) = [IfThen p t]"
| "actions_of (IfThenElse p t e) = [IfThenElse p t e]"
| "actions_of (TryFallback t f) = [TryFallback t f]"

text \<open>
  The builders \<open>If(p).Then(t)\<close>, \<open>.Else(e)\<close> and \<open>Try(t).Fallback(f)\<close>; each
  copies its arguments into the members of the combinator. \<open>Else\<close> is a member of
  \<open>IfThen\<close> only: its second equation makes the function total.
\<close>

definition If_Then :: "('q, 's) callable \<Rightarrow> ('q, 's) callable \<Rightarrow> ('q, 's) callable" where
  "If_Then m_logic then_action = IfThen m_logic then_action"

fun Else :: "('q, 's) callable \<Rightarrow> ('q, 's) callable \<Rightarrow> ('q, 's) callable" where
  "Else (IfThen m_predicate m_then) elseThen = IfThenElse m_predicate m_then elseThen"
| "Else c elseThen = c"

definition Try_Fallback :: "('q, 's) callable \<Rightarrow> ('q, 's) callable \<Rightarrow> ('q, 's) callable" where
  "Try_Fallback m_try fallback = TryFallback m_try fallback"

section \<open>BlockTuple: composition\<close>

text \<open>
  \<open>BlockTuple::operator|\<close> is a non-const member function. \<open>pipe m_actions other\<close>
  returns the member \<open>m_actions\<close> of \<open>*this\<close> after the call and the \<open>m_actions\<close> of
  the returned \<open>BlockTuple\<close>, or \<open>None\<close> where the call does not compile.
  The overload taking a \<open>BlockTuple<OtherActions...>\<close> returns the
  \<open>std::tuple_cat\<close> of both tuples, but it reads \<open>other.m_actions\<close>, a private
  member, and no class is declared a friend: it compiles only when \<open>other\<close> is of the
  class of \<open>*this\<close>, that is when both have the same element types. The overloads
  taking one action read \<open>m_actions\<close> as an lvalue and copy it.
  \<open>start_chain\<close> is \<open>BlockTuple<void>\<close>, which has no members; its \<open>operator|\<close>
  is \<open>start_pipe\<close>, whose overload for a \<open>BlockTuple\<close> reads the private member of
  another class in every case.
\<close>

definition tuple_cat :: "'a list \<Rightarrow> 'a list \<Rightarrow> 'a list" where
  "tuple_cat xs ys = xs @ ys"

fun pipe :: "('q, 's) callable list \<Rightarrow> ('q, 's) callable
    \<Rightarrow> (('q, 's) callable list \<times> ('q, 's) callable list) option" where
  "pipe m_actions (BlockTuple other) =
    (if map decltype_of other = map decltype_of m_actions
     then Some (m_actions, tuple_cat m_actions other) else None)"
| "pipe m_actions other = Some (m_actions, tuple_cat m_actions [other])"

definition start_chain :: "('q, 's) callable list" where
  "start_chain = []"

fun start_pipe :: "('q, 's) callable \<Rightarrow> ('q, 's) callable list option" where
  "start_pipe (BlockTuple other) = None"
| "start_pipe other = Some [other]"

section \<open>The store\<close>

text \<open>
  \<open>polymorphic_value\<close> owns objects through pointers, and several properties below
  are about which object a pointer designates after a copy or an assignment.
  Dynamically allocated objects therefore live in a store: a list of cells indexed
  by address, a released cell being \<open>None\<close>. \<open>allocate\<close> is \<open>new\<close> (and
  \<open>std::make_unique\<close>): it returns an address that was never used; \<open>deallocate\<close>
  is \<open>delete\<close>.
\<close>

type_synonym addr = nat

text \<open>
  The ways a call can fail: the exception \<open>bad_polymorphic_value_construction\<close>, a
  failed \<open>assert\<close> (the model is the build in which \<open>assert\<close> is active), and
  undefined behaviour, that is an access through a null or dangling pointer that no
  check guards. Exceptions thrown by caller-supplied actions are not modelled.
\<close>

datatype error = bad_polymorphic_value_construction | assertion_failure | undefined_behaviour

text \<open>
  The copier and the deleter of a \<open>pointer_control_block\<close>. \<open>default_copy\<close> is
  \<open>detail::default_copy<U>\<close>, that is \<open>new U(t)\<close>; a custom copier is any function
  from the object to the object it allocates. \<open>default_delete\<close> is
  \<open>std::default_delete<U>\<close>; a custom deleter is opaque.
\<close>

datatype 'v copier = default_copy | custom_copier "type_id \<times> 'v \<Rightarrow> type_id \<times> 'v"

datatype deleter = default_delete | custom_deleter nat

text \<open>
  The three control blocks. \<open>direct_control_block U u\<close> holds its object as the
  member \<open>u_\<close> of static type \<open>U\<close>; \<open>u\<close> is the address of that member, which is
  allocated and released with the block. \<open>pointer_control_block U p copier deleter\<close>
  holds \<open>p_\<close>, a \<open>std::unique_ptr<U, Deleter>\<close>. \<open>delegating_control_block d\<close> holds
  \<open>delegate_\<close>, a \<open>std::unique_ptr\<close> to another control block, which it owns alone:
  the delegate is stored in place.
\<close>

datatype 'v control_block =
    direct_control_block type_id addr
  | pointer_control_block type_id "addr option" "'v copier" deleter
  | delegating_control_block "'v control_block option"

text \<open>
  A cell is an object, with its dynamic type and its value, or a control block.
\<close>

datatype 'v cell = Object type_id 'v | Block "'v control_block"

type_synonym 'v heap = "'v cell option list"

definition lookup :: "'v heap \<Rightarrow> addr \<Rightarrow> 'v cell option" where
  "lookup h a = (if a < length h then h ! a else None)"

definition allocate :: "'v heap \<Rightarrow> 'v cell \<Rightarrow> addr \<times> 'v heap" where
  "allocate h c = (length h, h @ [Some c])"

definition deallocate :: "addr \<Rightarrow> 'v heap \<Rightarrow> 'v heap" where
  "deallocate a h = h[a := None]"

definition update_cell :: "addr \<Rightarrow> 'v cell \<Rightarrow> 'v heap \<Rightarrow> 'v heap" where
  "update_cell a c h = h[a := Some c]"

section \<open>polymorphic_value\<close>

text \<open>
  A \<open>polymorphic_value<T>\<close> has one member, \<open>cb_\<close>, a \<open>std::unique_ptr\<close> to its
  control block (the field is named \<open>cb\<close> here).
\<close>

record polymorphic_value =
  cb :: "addr option"

text \<open>The default constructor and the constructor from \<open>nullptr\<close>.\<close>

definition polymorphic_value_default :: polymorphic_value where
  "polymorphic_value_default = \<lparr>cb = None\<rparr>"

text \<open>\<open>explicit operator bool\<close>.\<close>

definition operator_bool :: "polymorphic_value \<Rightarrow> bool" where
  "operator_bool p = (cb p \<noteq> None)"

text \<open>
  \<open>std::is_same<C, detail::default_copy<U>>\<close> and
  \<open>std::is_same<D, std::default_delete<U>>\<close>.
\<close>

fun is_default_copy :: "'v copier \<Rightarrow> bool" where
  "is_default_copy default_copy = True"
| "is_default_copy (custom_copier f) = False"

fun is_default_delete :: "deleter \<Rightarrow> bool" where
  "is_default_delete default_delete = True"
| "is_default_delete (custom_deleter d) = False"

text \<open>
  \<open>typeid(*u)\<close> for a pointer \<open>u\<close> of type \<open>U*\<close>. When \<open>U\<close> is a class with
  virtual functions, the operand is evaluated and the result is the type of the most
  derived object, which is the type recorded in its cell. Otherwise the operand is not
  evaluated and the result is \<open>U\<close>.
\<close>

definition typeid :: "type_id \<Rightarrow> 'v heap \<Rightarrow> addr \<Rightarrow> error + type_id" where
  "typeid U h a =
    (if is_polymorphic U
     then (case lookup h a of Some (Object ty v) \<Rightarrow> Inr ty | _ \<Rightarrow> Inl undefined_behaviour)
     else Inr U)"

text \<open>
  The constructor from an owning pointer, \<open>polymorphic_value(U*&& u, C copier, D deleter)\<close>,
  and the constructor from \<open>std::unique_ptr<U, D>\<close>. \<open>U\<close> is the declared type. A null
  pointer gives an empty value. The \<open>&&\<close> of the source short-circuits: \<open>typeid(*u)\<close>
  is read only when both strategies are the default ones. What happens to the pointee
  when the exception leaves the constructor is not modelled.
\<close>

definition polymorphic_value_from_pointer ::
    "type_id \<Rightarrow> addr option \<Rightarrow> 'v copier \<Rightarrow> deleter \<Rightarrow> 'v heap
      \<Rightarrow> error + (polymorphic_value \<times> 'v heap)" where
  "polymorphic_value_from_pointer U u copier deleter h =
    (case u of
       None \<Rightarrow> Inr (\<lparr>cb = None\<rparr>, h)
     | Some a \<Rightarrow>
        (let stored = (case allocate h (Block (pointer_control_block U (Some a) copier deleter)) of
                         (c, h') \<Rightarrow> Inr (\<lparr>cb = Some c\<rparr>, h'))
         in if is_default_delete deleter \<and> is_default_copy copier
            then (case typeid U h a of
                    Inl e \<Rightarrow> Inl e
                  | Inr ty \<Rightarrow> if ty \<noteq> U then Inl bad_polymorphic_value_construction else stored)
            else stored))"

definition polymorphic_value_from_unique_ptr ::
    "type_id \<Rightarrow> addr option \<Rightarrow> 'v copier \<Rightarrow> deleter \<Rightarrow> 'v heap
      \<Rightarrow> error + (polymorphic_value \<times> 'v heap)" where
  "polymorphic_value_from_unique_ptr U u copier deleter h =
    (case u of
       None \<Rightarrow> Inr (\<lparr>cb = None\<rparr>, h)
     | Some a \<Rightarrow>
        (let stored = (case allocate h (Block (pointer_control_block U (Some a) copier deleter)) of
                         (c, h') \<Rightarrow> Inr (\<lparr>cb = Some c\<rparr>, h'))
         in if is_default_delete deleter \<and> is_default_copy copier
            then (case typeid U h a of
                    Inl e \<Rightarrow> Inl e
                  | Inr ty \<Rightarrow> if ty \<noteq> U then Inl bad_polymorphic_value_construction else stored)
            else stored))"

text \<open>
  \<open>control_block::ptr\<close>, and \<open>polymorphic_value::get\<close>, which is
  \<open>cb_ ? cb_->ptr() : nullptr\<close>.
\<close>

fun ptr :: "'v control_block \<Rightarrow> error + addr option" where
  "ptr (direct_control_block U u) = Inr (Some u)"
| "ptr (pointer_control_block U p copier deleter) = Inr p"
| "ptr (delegating_control_block None) = Inl undefined_behaviour"
| "ptr (delegating_control_block (Some d)) = ptr d"

definition get :: "polymorphic_value \<Rightarrow> 'v heap \<Rightarrow> error + addr option" where
  "get p h =
    (case cb p of
       None \<Rightarrow> Inr None
     | Some a \<Rightarrow> (case lookup h a of Some (Block b) \<Rightarrow> ptr b | _ \<Rightarrow> Inl undefined_behaviour))"

text \<open>
  The accessors. \<open>operator->\<close> asserts \<open>get() != nullptr\<close> and returns \<open>get()\<close>;
  \<open>operator*\<close> and \<open>value()\<close> return \<open>*get()\<close> with no check, so on a null pointer
  they bind a reference through it. (\<open>value\<close> is a keyword of Isabelle: the function is
  named \<open>value_ref\<close>.)
\<close>

definition operator_arrow :: "polymorphic_value \<Rightarrow> 'v heap \<Rightarrow> error + addr" where
  "operator_arrow p h =
    (case get p h of
       Inl e \<Rightarrow> Inl e
     | Inr None \<Rightarrow> Inl assertion_failure
     | Inr (Some a) \<Rightarrow> Inr a)"

definition operator_star :: "polymorphic_value \<Rightarrow> 'v heap \<Rightarrow> error + addr" where
  "operator_star p h =
    (case get p h of
       Inl e \<Rightarrow> Inl e
     | Inr None \<Rightarrow> Inl undefined_behaviour
     | Inr (Some a) \<Rightarrow> Inr a)"

definition value_ref :: "polymorphic_value \<Rightarrow> 'v heap \<Rightarrow> error + addr" where
  "value_ref p h =
    (case get p h of
       Inl e \<Rightarrow> Inl e
     | Inr None \<Rightarrow> Inl undefined_behaviour
     | Inr (Some a) \<Rightarrow> Inr a)"

text \<open>
  \<open>control_block::clone\<close>. \<open>call_copier\<close> is \<open>Copier::operator()(*p_)\<close>; the copy
  constructor of a class copies the value, and \<open>new U(t)\<close> makes an object whose
  dynamic type is \<open>U\<close>. \<open>clone_block\<close> builds the new block (copying the held object
  first, as the source does), \<open>clone\<close> allocates it.
  \<open>pointer_control_block::clone\<close> asserts that \<open>p_\<close> is not null.
\<close>

fun call_copier :: "'v copier \<Rightarrow> type_id \<Rightarrow> type_id \<Rightarrow> 'v \<Rightarrow> 'v cell" where
  "call_copier default_copy U ty v = Object U v"
| "call_copier (custom_copier f) U ty v = (case f (ty, v) of (ty', v') \<Rightarrow> Object ty' v')"

fun clone_block :: "'v control_block \<Rightarrow> 'v heap \<Rightarrow> error + ('v control_block \<times> 'v heap)" where
  "clone_block (direct_control_block U u) h =
    (case lookup h u of
       Some (Object ty v) \<Rightarrow>
         (case allocate h (Object U v) of (u', h') \<Rightarrow> Inr (direct_control_block U u', h'))
     | _ \<Rightarrow> Inl undefined_behaviour)"
| "clone_block (pointer_control_block U None copier deleter) h = Inl assertion_failure"
| "clone_block (pointer_control_block U (Some a) copier deleter) h =
    (case lookup h a of
       Some (Object ty v) \<Rightarrow>
         (case allocate h (call_copier copier U ty v) of
            (a', h') \<Rightarrow> Inr (pointer_control_block U (Some a') copier deleter, h'))
     | _ \<Rightarrow> Inl undefined_behaviour)"
| "clone_block (delegating_control_block None) h = Inl undefined_behaviour"
| "clone_block (delegating_control_block (Some d)) h =
    (case clone_block d h of
       Inl e \<Rightarrow> Inl e
     | Inr (d', h') \<Rightarrow> Inr (delegating_control_block (Some d'), h'))"

definition clone :: "addr \<Rightarrow> 'v heap \<Rightarrow> error + (addr \<times> 'v heap)" where
  "clone a h =
    (case lookup h a of
       Some (Block b) \<Rightarrow>
         (case clone_block b h of Inl e \<Rightarrow> Inl e | Inr (b', h') \<Rightarrow> Inr (allocate h' (Block b')))
     | _ \<Rightarrow> Inl undefined_behaviour)"

text \<open>
  Destruction. The destructor of a control block releases what the block owns: the
  member \<open>u_\<close>, the pointee of \<open>p_\<close> (handed to its deleter, default or custom, after
  which the block's owner has no object any more), or the delegate. \<open>reset\<close> is
  \<open>cb_.reset()\<close>: it destroys the control block and leaves \<open>cb_\<close> null.
\<close>

definition delete_object :: "addr \<Rightarrow> 'v heap \<Rightarrow> error + 'v heap" where
  "delete_object a h =
    (case lookup h a of Some (Object ty v) \<Rightarrow> Inr (deallocate a h) | _ \<Rightarrow> Inl undefined_behaviour)"

fun destroy_block :: "'v control_block \<Rightarrow> 'v heap \<Rightarrow> error + 'v heap" where
  "destroy_block (direct_control_block U u) h = delete_object u h"
| "destroy_block (pointer_control_block U None copier deleter) h = Inr h"
| "destroy_block (pointer_control_block U (Some a) copier deleter) h = delete_object a h"
| "destroy_block (delegating_control_block None) h = Inr h"
| "destroy_block (delegating_control_block (Some d)) h = destroy_block d h"

definition reset :: "polymorphic_value \<Rightarrow> 'v heap \<Rightarrow> error + (polymorphic_value \<times> 'v heap)" where
  "reset p h =
    (case cb p of
       None \<Rightarrow> Inr (p, h)
     | Some a \<Rightarrow>
        (case lookup h a of
           Some (Block b) \<Rightarrow>
             (case destroy_block b h of
                Inl e \<Rightarrow> Inl e
              | Inr h' \<Rightarrow> Inr (p\<lparr>cb := None\<rparr>, deallocate a h'))
         | _ \<Rightarrow> Inl undefined_behaviour))"

text \<open>The copy constructor: \<open>cb_(p ? p.cb_->clone() : nullptr)\<close>.\<close>

definition polymorphic_value_copy ::
    "polymorphic_value \<Rightarrow> 'v heap \<Rightarrow> error + (polymorphic_value \<times> 'v heap)" where
  "polymorphic_value_copy p h =
    (case cb p of
       None \<Rightarrow> Inr (\<lparr>cb = None\<rparr>, h)
     | Some a \<Rightarrow> (case clone a h of Inl e \<Rightarrow> Inl e | Inr (c, h') \<Rightarrow> Inr (\<lparr>cb = Some c\<rparr>, h')))"

text \<open>
  Copy assignment, \<open>operator=(const polymorphic_value& p)\<close>, and
  \<open>operator=(std::nullptr_t)\<close>. Both operands of the first are references, and the
  source compares their addresses, so the \<open>polymorphic_value\<close> objects themselves
  have addresses here: \<open>vars\<close> maps the address of each to its current value.
  \<open>!p\<close> is \<open>cb q = None\<close>. \<open>cb_ = p.cb_->clone()\<close> clones first and destroys
  the old control block after.
\<close>

definition operator_assign ::
    "addr \<Rightarrow> addr \<Rightarrow> (addr \<rightharpoonup> polymorphic_value) \<times> 'v heap
      \<Rightarrow> error + ((addr \<rightharpoonup> polymorphic_value) \<times> 'v heap)" where
  "operator_assign this p st =
    (case st of (vars, h) \<Rightarrow>
      if p = this then Inr (vars, h)
      else (case (vars this, vars p) of
         (Some t, Some q) \<Rightarrow>
           (case cb q of
              None \<Rightarrow>
                (case reset t h of Inl e \<Rightarrow> Inl e | Inr (t', h') \<Rightarrow> Inr (vars(this \<mapsto> t'), h'))
            | Some a \<Rightarrow>
                (case clone a h of
                   Inl e \<Rightarrow> Inl e
                 | Inr (c, h1) \<Rightarrow>
                     (case reset t h1 of
                        Inl e \<Rightarrow> Inl e
                      | Inr (t', h2) \<Rightarrow> Inr (vars(this \<mapsto> t'\<lparr>cb := Some c\<rparr>), h2))))
       | _ \<Rightarrow> Inl undefined_behaviour))"

definition operator_assign_nullptr ::
    "addr \<Rightarrow> (addr \<rightharpoonup> polymorphic_value) \<times> 'v heap
      \<Rightarrow> error + ((addr \<rightharpoonup> polymorphic_value) \<times> 'v heap)" where
  "operator_assign_nullptr this st =
    (case st of (vars, h) \<Rightarrow>
      (case vars this of
         Some t \<Rightarrow> (case reset t h of Inl e \<Rightarrow> Inl e | Inr (t', h') \<Rightarrow> Inr (vars(this \<mapsto> t'), h'))
       | None \<Rightarrow> Inl undefined_behaviour))"

text \<open>
  What a \<open>polymorphic_value\<close> holds in a store: \<open>owned_object\<close> is the object a
  control block owns, \<open>held h p\<close> lists the cells of \<open>p\<close> (its control block and the
  object), and \<open>owns h p\<close> says that they are allocated, which is the state every
  constructor establishes.
\<close>

fun owned_object :: "'v control_block \<Rightarrow> addr option" where
  "owned_object (direct_control_block U u) = Some u"
| "owned_object (pointer_control_block U p copier deleter) = p"
| "owned_object (delegating_control_block None) = None"
| "owned_object (delegating_control_block (Some d)) = owned_object d"

definition held :: "'v heap \<Rightarrow> polymorphic_value \<Rightarrow> addr list" where
  "held h p =
    (case cb p of
       None \<Rightarrow> []
     | Some a \<Rightarrow>
        (case lookup h a of
           Some (Block b) \<Rightarrow> a # (case owned_object b of None \<Rightarrow> [] | Some x \<Rightarrow> [x])
         | _ \<Rightarrow> []))"

definition is_object :: "'v heap \<Rightarrow> addr \<Rightarrow> bool" where
  "is_object h a = (case lookup h a of Some (Object ty v) \<Rightarrow> True | _ \<Rightarrow> False)"

definition owns :: "'v heap \<Rightarrow> polymorphic_value \<Rightarrow> bool" where
  "owns h p =
    (case cb p of
       None \<Rightarrow> True
     | Some a \<Rightarrow>
        (case lookup h a of
           Some (Block b) \<Rightarrow> (case owned_object b of None \<Rightarrow> True | Some x \<Rightarrow> is_object h x)
         | _ \<Rightarrow> False))"

section \<open>ExecutionChain\<close>

text \<open>
  An \<open>ExecutionChain<Args...>\<close> has one member, \<open>m_blocks\<close>, a
  \<open>std::vector<polymorphic_value<IExecutionBlock>>\<close>. The objects the blocks own are
  \<open>ExecutionBlock<Action>\<close> objects, each with the one member \<open>m_action\<close>: in the
  store, an \<open>Object\<close> cell whose value is the action.
\<close>

record ExecutionChain =
  m_blocks :: "polymorphic_value list"

definition ExecutionChain_default :: ExecutionChain where
  "ExecutionChain_default = \<lparr>m_blocks = []\<rparr>"

text \<open>
  \<open>create_block\<close> is \<open>std::make_unique<ExecutionBlock<std::decay_t<ActionT>>>\<close>.
  \<open>append_action\<close> is \<open>append(ActionT&&)\<close> and \<open>append(BlockTupleT&&)\<close>, whose
  bodies are the same: \<open>m_blocks.emplace_back(create_block(action))\<close>, which builds
  the new \<open>polymorphic_value\<close> from the \<open>std::unique_ptr\<close>. (The name
  \<open>append\<close> is taken by lists.) A sequence is stored as one block.
\<close>

definition create_block ::
    "('q, 's) callable \<Rightarrow> ('q, 's) callable heap \<Rightarrow> addr \<times> ('q, 's) callable heap" where
  "create_block action h = allocate h (Object (ExecutionBlock_type (decltype_of action)) action)"

definition append_action ::
    "('q, 's) callable \<Rightarrow> ExecutionChain \<Rightarrow> ('q, 's) callable heap
      \<Rightarrow> error + (ExecutionChain \<times> ('q, 's) callable heap)" where
  "append_action action c h =
    (case create_block action h of
       (u, h1) \<Rightarrow>
         (case polymorphic_value_from_unique_ptr (ExecutionBlock_type (decltype_of action)) (Some u)
                 default_copy default_delete h1 of
            Inl e \<Rightarrow> Inl e
          | Inr (block, h2) \<Rightarrow> Inr (c\<lparr>m_blocks := m_blocks c @ [block]\<rparr>, h2)))"

text \<open>
  Copying a range of blocks, each with the copy constructor of \<open>polymorphic_value\<close>:
  what the copy constructor of the vector does (the copy constructor of the chain is
  defaulted) and what \<open>m_blocks.insert(m_blocks.end(), rhs.m_blocks.begin(),
  rhs.m_blocks.end())\<close> does in \<open>append(RhsT&&... rhs)\<close>, here \<open>append_chain\<close> for one
  \<open>rhs\<close>. The chain \<open>rhs\<close> is passed as a value; appending a chain to itself, which
  the vector does not allow, is not modelled.
\<close>

fun copy_blocks ::
    "polymorphic_value list \<Rightarrow> 'v heap \<Rightarrow> error + (polymorphic_value list \<times> 'v heap)" where
  "copy_blocks [] h = Inr ([], h)"
| "copy_blocks (block # rest) h =
    (case polymorphic_value_copy block h of
       Inl e \<Rightarrow> Inl e
     | Inr (block', h1) \<Rightarrow>
         (case copy_blocks rest h1 of
            Inl e \<Rightarrow> Inl e
          | Inr (rest', h2) \<Rightarrow> Inr (block' # rest', h2)))"

definition ExecutionChain_copy ::
    "ExecutionChain \<Rightarrow> 'v heap \<Rightarrow> error + (ExecutionChain \<times> 'v heap)" where
  "ExecutionChain_copy other h =
    (case copy_blocks (m_blocks other) h of
       Inl e \<Rightarrow> Inl e
     | Inr (blocks, h') \<Rightarrow> Inr (\<lparr>m_blocks = blocks\<rparr>, h'))"

definition append_chain ::
    "ExecutionChain \<Rightarrow> ExecutionChain \<Rightarrow> 'v heap \<Rightarrow> error + (ExecutionChain \<times> 'v heap)" where
  "append_chain rhs c h =
    (case copy_blocks (m_blocks rhs) h of
       Inl e \<Rightarrow> Inl e
     | Inr (blocks, h') \<Rightarrow> Inr (c\<lparr>m_blocks := m_blocks c @ blocks\<rparr>, h'))"

text \<open>
  \<open>clear\<close> is \<open>m_blocks.clear()\<close>: every block is destroyed. Assigning an empty
  chain (\<open>chain = {}\<close>) has the same effect on the target.
\<close>

fun destroy_blocks :: "polymorphic_value list \<Rightarrow> 'v heap \<Rightarrow> error + 'v heap" where
  "destroy_blocks [] h = Inr h"
| "destroy_blocks (block # rest) h =
    (case reset block h of
       Inl e \<Rightarrow> Inl e
     | Inr (block', h1) \<Rightarrow> destroy_blocks rest h1)"

definition clear :: "ExecutionChain \<Rightarrow> 'v heap \<Rightarrow> error + (ExecutionChain \<times> 'v heap)" where
  "clear c h =
    (case destroy_blocks (m_blocks c) h of
       Inl e \<Rightarrow> Inl e
     | Inr h' \<Rightarrow> Inr (c\<lparr>m_blocks := []\<rparr>, h'))"

text \<open>
  \<open>operator|=\<close> (both overloads return \<open>append\<close> of their argument), the
  constructors from an action and from a sequence, and \<open>operator=\<close> from an action
  and from a sequence: \<open>m_blocks.clear()\<close>, then \<open>append\<close>, respectively
  \<open>operator|=\<close>. \<open>CheckBlockTupleCompatibility\<close> is a \<open>static_assert\<close>.
\<close>

definition operator_pipe_assign ::
    "('q, 's) callable \<Rightarrow> ExecutionChain \<Rightarrow> ('q, 's) callable heap
      \<Rightarrow> error + (ExecutionChain \<times> ('q, 's) callable heap)" where
  "operator_pipe_assign action c h = append_action action c h"

definition ExecutionChain_from ::
    "('q, 's) callable \<Rightarrow> ('q, 's) callable heap
      \<Rightarrow> error + (ExecutionChain \<times> ('q, 's) callable heap)" where
  "ExecutionChain_from action h = append_action action ExecutionChain_default h"

definition operator_assign_from ::
    "('q, 's) callable \<Rightarrow> ExecutionChain \<Rightarrow> ('q, 's) callable heap
      \<Rightarrow> error + (ExecutionChain \<times> ('q, 's) callable heap)" where
  "operator_assign_from action c h =
    (case clear c h of
       Inl e \<Rightarrow> Inl e
     | Inr (c', h') \<Rightarrow> operator_pipe_assign action c' h')"

text \<open>
  \<open>ExecutionBlock::Execute\<close> is \<open>std::invoke(m_action, args...)\<close>, whose result is
  discarded; it is not \<open>const\<close>, so the action keeps the state the call leaves.
  \<open>ExecutionChain::Execute\<close> is the loop
  \<open>for (const auto& block : m_blocks) block.get()->Execute(args...)\<close>; it is
  \<open>const\<close>, so the model returns the arguments and the store and no chain.
  \<open>operator()\<close> forwards to it.
\<close>

definition ExecutionBlock_Execute ::
    "addr \<Rightarrow> 's \<Rightarrow> ('q, 's) callable heap \<Rightarrow> error + ('s \<times> ('q, 's) callable heap)" where
  "ExecutionBlock_Execute this s h =
    (case lookup h this of
       Some (Object ty m_action) \<Rightarrow>
         (case invoke m_action s of
            (r, m_action', s') \<Rightarrow> Inr (s', update_cell this (Object ty m_action') h))
     | _ \<Rightarrow> Inl undefined_behaviour)"

fun Execute_blocks ::
    "polymorphic_value list \<Rightarrow> 's \<Rightarrow> ('q, 's) callable heap
      \<Rightarrow> error + ('s \<times> ('q, 's) callable heap)" where
  "Execute_blocks [] s h = Inr (s, h)"
| "Execute_blocks (block # rest) s h =
    (case get block h of
       Inl e \<Rightarrow> Inl e
     | Inr None \<Rightarrow> Inl undefined_behaviour
     | Inr (Some p) \<Rightarrow>
         (case ExecutionBlock_Execute p s h of
            Inl e \<Rightarrow> Inl e
          | Inr (s', h') \<Rightarrow> Execute_blocks rest s' h'))"

definition Execute ::
    "ExecutionChain \<Rightarrow> 's \<Rightarrow> ('q, 's) callable heap \<Rightarrow> error + ('s \<times> ('q, 's) callable heap)" where
  "Execute c s h = Execute_blocks (m_blocks c) s h"

text \<open>What a caller observes of an invocation: the arguments it passed, afterwards.\<close>

definition arguments_after :: "error + ('s \<times> 'h) \<Rightarrow> error + 's" where
  "arguments_after r = (case r of Inl e \<Rightarrow> Inl e | Inr (s, h) \<Rightarrow> Inr s)"

subsection \<open>The blocks of a chain in the store\<close>

text \<open>
  Every block of a chain is made by \<open>append\<close> or by \<open>clone\<close>: its control block is a
  \<open>pointer_control_block\<close> with the default copier and deleter, and this points to
  an object. \<open>block_view h b\<close> reads this off the store: the address of the control
  block, the address of the object, and the action in it. \<open>footprint\<close> lists the
  cells of a list of blocks, \<open>contents\<close> the actions, in order. \<open>valid_blocks\<close> is
  the state of a chain that the constructors establish and every operation keeps
  (lemmas \<open>append_action_valid\<close>, \<open>append_chain_valid\<close>, \<open>clear_valid\<close>,
  \<open>ExecutionChain_copy_valid\<close>, \<open>Execute_valid\<close>): every block has a view and no
  cell is shared.
\<close>

fun chain_block_pointee :: "'v control_block \<Rightarrow> addr option" where
  "chain_block_pointee (pointer_control_block U (Some p) default_copy default_delete) = Some p"
| "chain_block_pointee b = None"

definition block_view :: "'v heap \<Rightarrow> polymorphic_value \<Rightarrow> (addr \<times> addr \<times> 'v) option" where
  "block_view h b =
    (case cb b of
       None \<Rightarrow> None
     | Some a \<Rightarrow>
        (case lookup h a of
           Some (Block blk) \<Rightarrow>
             (case chain_block_pointee blk of
                None \<Rightarrow> None
              | Some p \<Rightarrow>
                 (case lookup h p of
                    Some (Object ty x) \<Rightarrow> Some (a, p, x)
                  | _ \<Rightarrow> None))
         | _ \<Rightarrow> None))"

definition cells :: "(addr \<times> addr \<times> 'v) option \<Rightarrow> addr list" where
  "cells v = (case v of None \<Rightarrow> [] | Some (a, p, x) \<Rightarrow> [a, p])"

definition content :: "(addr \<times> addr \<times> 'v) option \<Rightarrow> 'v list" where
  "content v = (case v of None \<Rightarrow> [] | Some (a, p, x) \<Rightarrow> [x])"

definition footprint :: "'v heap \<Rightarrow> polymorphic_value list \<Rightarrow> addr list" where
  "footprint h bs = concat (map (\<lambda>b. cells (block_view h b)) bs)"

definition contents :: "'v heap \<Rightarrow> polymorphic_value list \<Rightarrow> 'v list" where
  "contents h bs = concat (map (\<lambda>b. content (block_view h b)) bs)"

definition valid_blocks :: "'v heap \<Rightarrow> polymorphic_value list \<Rightarrow> bool" where
  "valid_blocks h bs = (list_all (\<lambda>b. block_view h b \<noteq> None) bs \<and> distinct (footprint h bs))"

subsection \<open>Sequences of operations on chains\<close>

text \<open>
  What can be appended to a chain: an action or a sequence (\<open>Action x\<close>; both
  overloads of \<open>append\<close> store their argument in one new block), or the blocks of
  another chain. \<open>append_all\<close> performs a list of appends in order; \<open>appended h x\<close>
  is what the blocks added for the source \<open>x\<close> hold, a chain being read in the store
  \<open>h\<close> in which the appends start.
\<close>

datatype ('q, 's) source = Action "('q, 's) callable" | Chain ExecutionChain

fun append_source ::
    "('q, 's) source \<Rightarrow> ExecutionChain \<Rightarrow> ('q, 's) callable heap
      \<Rightarrow> error + (ExecutionChain \<times> ('q, 's) callable heap)" where
  "append_source (Action x) c h = append_action x c h"
| "append_source (Chain rhs) c h = append_chain rhs c h"

fun append_all ::
    "('q, 's) source list \<Rightarrow> ExecutionChain \<Rightarrow> ('q, 's) callable heap
      \<Rightarrow> error + (ExecutionChain \<times> ('q, 's) callable heap)" where
  "append_all [] c h = Inr (c, h)"
| "append_all (x # xs) c h =
    (case append_source x c h of
       Inl e \<Rightarrow> Inl e
     | Inr (c', h') \<Rightarrow> append_all xs c' h')"

fun appended :: "('q, 's) callable heap \<Rightarrow> ('q, 's) source \<Rightarrow> ('q, 's) callable list" where
  "appended h (Action x) = [x]"
| "appended h (Chain rhs) = contents h (m_blocks rhs)"

fun source_valid :: "('q, 's) callable heap \<Rightarrow> ('q, 's) source \<Rightarrow> bool" where
  "source_valid h (Action x) = True"
| "source_valid h (Chain rhs) = valid_blocks h (m_blocks rhs)"

text \<open>
  The mutations of a chain \<open>c\<close> next to a second chain \<open>other\<close>: appending an action
  (\<open>c |= x\<close>), appending the blocks of the other chain (\<open>c.append(other)\<close>), clearing
  (\<open>c = {}\<close>) and reassigning (\<open>c = x\<close>).
\<close>

datatype ('q, 's) mutation =
    Append "('q, 's) callable" | AppendChain | Clear | Reassign "('q, 's) callable"

fun mutate ::
    "('q, 's) mutation \<Rightarrow> ExecutionChain \<Rightarrow> ExecutionChain \<Rightarrow> ('q, 's) callable heap
      \<Rightarrow> error + (ExecutionChain \<times> ('q, 's) callable heap)" where
  "mutate (Append x) c other h = operator_pipe_assign x c h"
| "mutate AppendChain c other h = append_chain other c h"
| "mutate Clear c other h = clear c h"
| "mutate (Reassign x) c other h = operator_assign_from x c h"

fun mutate_all ::
    "('q, 's) mutation list \<Rightarrow> ExecutionChain \<Rightarrow> ExecutionChain \<Rightarrow> ('q, 's) callable heap
      \<Rightarrow> error + (ExecutionChain \<times> ('q, 's) callable heap)" where
  "mutate_all [] c other h = Inr (c, h)"
| "mutate_all (m # ms) c other h =
    (case mutate m c other h of
       Inl e \<Rightarrow> Inl e
     | Inr (c', h') \<Rightarrow> mutate_all ms c' other h')"

subsection \<open>Example actions\<close>

text \<open>
  Actions on one \<open>int\<close> argument, each with a counter as its data member.
  \<open>add_one\<close> is a lambda that returns nothing; \<open>times_four\<close> is a struct whose
  \<open>operator()\<close> counts its calls and returns false. \<open>greater_than_five\<close> is
  the lambda \<open>[](int& a) { return a > 5; }\<close>. \<open>refusing_when_const\<close> is a struct
  with \<open>void operator()(int& a) { a *= 2; }\<close> and
  \<open>bool operator()(int& a) const { a += 1; return false; }\<close>.
  \<open>one_block_heap\<close> is the store after \<open>add_one\<close> has been appended to an empty
  chain, and \<open>one_block_chain\<close> is that chain.
\<close>

definition add_one :: "(nat, int) callable" where
  "add_one = Functor 0 0 (const_only (void_operator (\<lambda>q a. (q, a + 1))))"

definition times_four :: "(nat, int) callable" where
  "times_four = Functor 1 0 (non_const_only (bool_operator (\<lambda>q a. (False, Suc q, a * 4))))"

definition greater_than_five :: "(nat, int) callable" where
  "greater_than_five = Functor 2 0 (const_only (bool_operator (\<lambda>q a. (5 < a, q, a))))"

definition refusing_when_const :: "(nat, int) callable" where
  "refusing_when_const =
    Functor 3 0 (both_overloads (void_operator (\<lambda>q a. (q, a * 2)))
                                (bool_operator (\<lambda>q a. (False, q, a + 1))))"

definition one_block_heap :: "(nat, int) callable heap" where
  "one_block_heap =
    [Some (Object (ExecutionBlock_type (class_type 0)) add_one),
     Some (Block (pointer_control_block (ExecutionBlock_type (class_type 0)) (Some 0)
            default_copy default_delete))]"

definition one_block_chain :: ExecutionChain where
  "one_block_chain = \<lparr>m_blocks = [\<lparr>cb = Some 1\<rparr>]\<rparr>"

section \<open>Properties of the combinators\<close>

lemma apply_operator_kind:
  "(\<exists>b. fst (apply_operator operator q s) = Boolean b) \<longleftrightarrow> operator_returns_bool operator"
  by (cases operator) (auto split: prod.splits)


lemma invoke_const_kind:
  "(\<exists>b. fst (invoke_const c s) = Boolean b) \<longleftrightarrow> returns_bool_const c"
proof (cases c)
  case (Functor n q ops)
  show ?thesis
  proof (cases "const_overload ops")
    case None
    with Functor show ?thesis by simp
  next
    case (Some operator)
    with Functor show ?thesis
      using apply_operator_kind [of operator q s] by (auto split: prod.splits)
  qed
qed (auto split: prod.splits if_splits)


lemma Call_const_eq:
  "Call_const c s = (case invoke_const c s of (r, c', s') \<Rightarrow>
     ((if returns_bool c then (case r of Boolean b \<Rightarrow> b | Void \<Rightarrow> True) else True), c', s'))"
  by (auto split: prod.splits ret.splits)

text \<open>
  C3. Branch. \<open>IfThen::Execute\<close> and \<open>IfThenElse::Execute\<close> are \<open>const\<close>, so the
  then-action is called through a const object, while \<open>detail::Call\<close> decides on the
  type without its \<open>const\<close> whether that call returns a \<open>bool\<close>. For the
  then-action \<open>refusing_when_const\<close>, whose \<open>operator() const\<close> adds one and returns
  false and whose non-const \<open>operator()\<close> returns nothing, the branch compiles, the
  predicate is true at 10, the then-action is called (10 becomes 11) and returns
  false, and the branch returns true. The same happens in the else-branch of
  \<open>IfThenElse\<close> at 4. A then-action that has no \<open>operator() const\<close>, such as a
  \<open>TryFallback\<close>, does not compile in a branch at all.
\<close>

theorem Branch_ignores_result_of_const_call:
  "compiles (IfThen greater_than_five refusing_when_const)
   \<and> invoke_const greater_than_five 10 = (Boolean True, greater_than_five, 10)
   \<and> invoke_const refusing_when_const 10 = (Boolean False, refusing_when_const, 11)
   \<and> invoke (IfThen greater_than_five refusing_when_const) 10
       = (Boolean True, IfThen greater_than_five refusing_when_const, 11)
   \<and> compiles (IfThenElse greater_than_five add_one refusing_when_const)
   \<and> invoke_const greater_than_five 4 = (Boolean False, greater_than_five, 4)
   \<and> invoke_const refusing_when_const 4 = (Boolean False, refusing_when_const, 5)
   \<and> invoke (IfThenElse greater_than_five add_one refusing_when_const) 4
       = (Boolean True, IfThenElse greater_than_five add_one refusing_when_const, 5)
   \<and> \<not> compiles (IfThen p (TryFallback a f))"
  by (simp add: greater_than_five_def refusing_when_const_def add_one_def)

text \<open>
  Where the two calls of the then-action and of the else-action have the same return
  type, the branch is as specified. When the predicate \<open>P\<close> returns the boolean \<open>b\<close>
  (leaving itself as \<open>P'\<close> and the arguments as \<open>s1\<close>): if \<open>b\<close> is true, the
  then-action \<open>T\<close> is called once on \<open>s1\<close> and the branch returns \<open>T\<close>'s result, or
  true when \<open>T\<close> returns nothing; if \<open>b\<close> is false, \<open>IfThen\<close> returns true with \<open>T\<close>
  and the arguments as the predicate left them, and \<open>IfThenElse\<close> calls the
  else-action \<open>E\<close> once on \<open>s1\<close> and returns its result, or true when \<open>E\<close> returns
  nothing.
\<close>

lemma Branch_Execute_same_return_type:
  assumes "invoke_const P s = (Boolean b, P', s1)"
      and "invoke_const T s1 = (rt, T', s2)"
      and "invoke_const E s1 = (re, E', s3)"
      and "returns_bool T = returns_bool_const T"
      and "returns_bool E = returns_bool_const E"
  shows "invoke (IfThen P T) s =
           (if b then (Boolean (case rt of Boolean r \<Rightarrow> r | Void \<Rightarrow> True), IfThen P' T', s2)
            else (Boolean True, IfThen P' T, s1))
       \<and> invoke (IfThenElse P T E) s =
           (if b then (Boolean (case rt of Boolean r \<Rightarrow> r | Void \<Rightarrow> True), IfThenElse P' T' E, s2)
            else (Boolean (case re of Boolean r \<Rightarrow> r | Void \<Rightarrow> True), IfThenElse P' T E', s3))"
proof -
  have t: "(if returns_bool T then (case rt of Boolean r \<Rightarrow> r | Void \<Rightarrow> True) else True)
             = (case rt of Boolean r \<Rightarrow> r | Void \<Rightarrow> True)"
    using invoke_const_kind [of T s1] assms(2,4) by (auto split: ret.splits)
  have e: "(if returns_bool E then (case re of Boolean r \<Rightarrow> r | Void \<Rightarrow> True) else True)
             = (case re of Boolean r \<Rightarrow> r | Void \<Rightarrow> True)"
    using invoke_const_kind [of E s1] assms(3,5) by (auto split: ret.splits)
  show ?thesis
    using assms(1,2,3) t e by (simp add: Call_const_eq del: Call_const.simps)
qed

text \<open>
  The scenario of the specification, \<open>If(a > 5).Then(a *= 2).Else(a /= 2)\<close> with
  three lambdas, at \<open>a = 10\<close> and at \<open>a = 4\<close>; without the else-branch \<open>a = 4\<close>
  is left alone.
\<close>

lemma Branch_scenario:
  "invoke (IfThenElse greater_than_five
             (Functor 4 0 (const_only (void_operator (\<lambda>q a. (q, a * 2)))))
             (Functor 5 0 (const_only (void_operator (\<lambda>q a. (q, a div 2)))))) 10
     = (Boolean True,
        IfThenElse greater_than_five
             (Functor 4 0 (const_only (void_operator (\<lambda>q a. (q, a * 2)))))
             (Functor 5 0 (const_only (void_operator (\<lambda>q a. (q, a div 2))))), 20)
   \<and> invoke (IfThenElse greater_than_five
             (Functor 4 0 (const_only (void_operator (\<lambda>q a. (q, a * 2)))))
             (Functor 5 0 (const_only (void_operator (\<lambda>q a. (q, a div 2)))))) 4
     = (Boolean True,
        IfThenElse greater_than_five
             (Functor 4 0 (const_only (void_operator (\<lambda>q a. (q, a * 2)))))
             (Functor 5 0 (const_only (void_operator (\<lambda>q a. (q, a div 2))))), 2)
   \<and> invoke (IfThen greater_than_five
             (Functor 4 0 (const_only (void_operator (\<lambda>q a. (q, a * 2)))))) 4
     = (Boolean True,
        IfThen greater_than_five
             (Functor 4 0 (const_only (void_operator (\<lambda>q a. (q, a * 2))))), 4)"
  by (simp add: greater_than_five_def)



text \<open>
  C7. Composition with a sequence operand. \<open>start_chain | x\<close> does not compile for
  any sequence \<open>x\<close>, and \<open>s | x\<close> does not compile for the sequence holding
  \<open>add_one\<close> and the sequence holding \<open>times_four\<close>, whose element types differ:
  there is no new sequence.
\<close>

theorem pipe_sequence_operand:
  "start_pipe (BlockTuple other) = None
   \<and> pipe [add_one] (BlockTuple [times_four]) = None"
  by (simp add: add_one_def times_four_def)

text \<open>
  With an action operand, and with a sequence of the same element types as \<open>s\<close>,
  the composition returns a sequence holding the elements of \<open>s\<close> followed by those
  of the operand, and the members of \<open>s\<close> are the same after the call.
\<close>

lemma pipe_action_operand:
  assumes "\<not> is_block_tuple x"
  shows "pipe s x = Some (s, s @ [x]) \<and> start_pipe x = Some (start_chain @ [x])"
  using assms by (cases x) (simp_all add: tuple_cat_def start_chain_def)

lemma pipe_sequence_of_same_types:
  assumes "map decltype_of other = map decltype_of s"
  shows "pipe s (BlockTuple other) = Some (s, s @ other)"
  using assms by (simp add: tuple_cat_def)

lemma builders:
  "Else (If_Then p t) e = IfThenElse p t e \<and> Try_Fallback a f = TryFallback a f"
  by (simp add: If_Then_def Try_Fallback_def)

section \<open>The store: lookups\<close>

lemma lookup_append [simp]:
  "lookup (h @ [x]) a = (if a = length h then x else lookup h a)"
  by (auto simp: lookup_def nth_append)

lemma lookup_deallocate [simp]:
  "lookup (deallocate a h) b = (if b = a then None else lookup h b)"
  by (auto simp: lookup_def deallocate_def)

lemma lookup_update_cell [simp]:
  "lookup (update_cell a c h) b = (if b = a \<and> a < length h then Some c else lookup h b)"
  by (auto simp: lookup_def update_cell_def)

lemma lookup_Some_less: "lookup h a = Some c \<Longrightarrow> a < length h"
  by (auto simp: lookup_def split: if_splits)

lemma length_deallocate [simp]: "length (deallocate a h) = length h"
  by (simp add: deallocate_def)

lemma length_update_cell [simp]: "length (update_cell a c h) = length h"
  by (simp add: update_cell_def)

lemma lookup_append_left: "a < length h \<Longrightarrow> lookup (h @ ext) a = lookup h a"
  by (simp add: lookup_def nth_append)

lemma lookup_ge_None: "length h \<le> a \<Longrightarrow> lookup h a = None"
  by (simp add: lookup_def)

section \<open>polymorphic_value: construction, access, assignment\<close>

lemma null_pointer_gives_empty:
  "polymorphic_value_from_pointer U None C D h = Inr (polymorphic_value_default, h)
   \<and> polymorphic_value_from_unique_ptr U None C D h = Inr (polymorphic_value_default, h)"
  by (simp add: polymorphic_value_from_pointer_def polymorphic_value_from_unique_ptr_def
        polymorphic_value_default_def)

text \<open>
  C6, as stated: the constructor fails exactly when the dynamic type of the pointee
  differs from \<open>U\<close>. That is not so for a declared class \<open>U\<close> without virtual
  functions: \<open>typeid(*u)\<close> is then \<open>U\<close> itself, and the object of another class is
  stored with the default strategies.
\<close>

theorem construction_without_virtual_functions_counterexample:
  "polymorphic_value_from_pointer (class_type 1) (Some 0) default_copy default_delete
      [Some (Object (class_type 2) (5::int))]
     = Inr (\<lparr>cb = Some 1\<rparr>,
            [Some (Object (class_type 2) 5),
             Some (Block (pointer_control_block (class_type 1) (Some 0) default_copy default_delete))])
   \<and> class_type 2 \<noteq> class_type 1"
  by (simp add: polymorphic_value_from_pointer_def typeid_def allocate_def Let_def)

text \<open>
  C6, amended. Construction from an owning pointer, and from a \<open>std::unique_ptr\<close>,
  declared as type \<open>U\<close> and pointing to an object of dynamic type \<open>ty\<close>: the
  constructor throws \<open>bad_polymorphic_value_construction\<close> exactly when the copier
  and the deleter are the default ones, \<open>U\<close> is a class with virtual functions and
  \<open>ty\<close> differs from \<open>U\<close>. In every other case it returns a value whose new control
  block points to the object, which is left where it is: \<open>get\<close> returns its address.
  The failure is the exception, a value of the caller's to inspect, neither a failed
  assertion nor undefined behaviour.
\<close>

theorem polymorphic_value_construction:
  assumes "lookup h a = Some (Object ty v)"
  shows "polymorphic_value_from_pointer U (Some a) C D h =
           (if is_default_copy C \<and> is_default_delete D \<and> is_polymorphic U \<and> ty \<noteq> U
            then Inl bad_polymorphic_value_construction
            else Inr (\<lparr>cb = Some (length h)\<rparr>,
                      h @ [Some (Block (pointer_control_block U (Some a) C D))]))
       \<and> polymorphic_value_from_unique_ptr U (Some a) C D h =
           (if is_default_copy C \<and> is_default_delete D \<and> is_polymorphic U \<and> ty \<noteq> U
            then Inl bad_polymorphic_value_construction
            else Inr (\<lparr>cb = Some (length h)\<rparr>,
                      h @ [Some (Block (pointer_control_block U (Some a) C D))]))
       \<and> get \<lparr>cb = Some (length h)\<rparr> (h @ [Some (Block (pointer_control_block U (Some a) C D))])
           = Inr (Some a)
       \<and> lookup (h @ [Some (Block (pointer_control_block U (Some a) C D))]) a
           = Some (Object ty v)"
  using assms lookup_Some_less [OF assms]
  by (auto simp: polymorphic_value_from_pointer_def polymorphic_value_from_unique_ptr_def
        typeid_def allocate_def get_def Let_def)

text \<open>
  For a declared class with virtual functions: a mismatch with the default strategies
  throws; with a custom deleter, with a custom copier, or with matching types, the
  object is stored.
\<close>

theorem polymorphic_value_construction_witness:
  "polymorphic_value_from_pointer (polymorphic_class_type 1) (Some 0) default_copy default_delete
      [Some (Object (polymorphic_class_type 2) (5::int))]
     = Inl bad_polymorphic_value_construction
   \<and> polymorphic_value_from_unique_ptr (polymorphic_class_type 1) (Some 0) default_copy
        (custom_deleter 7) [Some (Object (polymorphic_class_type 2) (5::int))]
     = Inr (\<lparr>cb = Some 1\<rparr>,
            [Some (Object (polymorphic_class_type 2) 5),
             Some (Block (pointer_control_block (polymorphic_class_type 1) (Some 0) default_copy
                     (custom_deleter 7)))])
   \<and> polymorphic_value_from_pointer (polymorphic_class_type 1) (Some 0) (custom_copier id)
        default_delete [Some (Object (polymorphic_class_type 2) (5::int))]
     = Inr (\<lparr>cb = Some 1\<rparr>,
            [Some (Object (polymorphic_class_type 2) 5),
             Some (Block (pointer_control_block (polymorphic_class_type 1) (Some 0) (custom_copier id)
                     default_delete))])
   \<and> polymorphic_value_from_unique_ptr (polymorphic_class_type 1) (Some 0) default_copy
        default_delete [Some (Object (polymorphic_class_type 1) (5::int))]
     = Inr (\<lparr>cb = Some 1\<rparr>,
            [Some (Object (polymorphic_class_type 1) 5),
             Some (Block (pointer_control_block (polymorphic_class_type 1) (Some 0) default_copy
                     default_delete))])"
  using polymorphic_value_construction [of "[Some (Object (polymorphic_class_type 2) (5::int))]" 0
          "polymorphic_class_type 2" 5 "polymorphic_class_type 1" default_copy default_delete]
        polymorphic_value_construction [of "[Some (Object (polymorphic_class_type 2) (5::int))]" 0
          "polymorphic_class_type 2" 5 "polymorphic_class_type 1" default_copy "custom_deleter 7"]
        polymorphic_value_construction [of "[Some (Object (polymorphic_class_type 2) (5::int))]" 0
          "polymorphic_class_type 2" 5 "polymorphic_class_type 1" "custom_copier id" default_delete]
        polymorphic_value_construction [of "[Some (Object (polymorphic_class_type 1) (5::int))]" 0
          "polymorphic_class_type 1" 5 "polymorphic_class_type 1" default_copy default_delete]
  by (simp add: lookup_def)

text \<open>
  C8. The accessors on an empty value. \<open>operator->\<close> fails its assertion. \<open>operator*\<close>
  and \<open>value()\<close> have no assertion: they dereference the null pointer \<open>get()\<close>
  returns, which is undefined behaviour and no checked failure.
\<close>

theorem empty_access:
  "operator_arrow polymorphic_value_default h = Inl assertion_failure
   \<and> operator_star polymorphic_value_default h = Inl undefined_behaviour
   \<and> value_ref polymorphic_value_default h = Inl undefined_behaviour"
  by (simp add: operator_arrow_def operator_star_def value_ref_def get_def
        polymorphic_value_default_def)

lemma destroy_block_owned:
  "(case owned_object b of None \<Rightarrow> True | Some x \<Rightarrow> is_object h x) \<Longrightarrow>
   destroy_block b h = Inr (case owned_object b of None \<Rightarrow> h | Some x \<Rightarrow> deallocate x h)"
  by (induction b h rule: destroy_block.induct)
     (auto simp: delete_object_def is_object_def split: option.splits cell.splits)

lemma reset_owns:
  assumes "owns h t"
  shows "\<exists>h'. reset t h = Inr (t\<lparr>cb := None\<rparr>, h')
           \<and> length h' = length h
           \<and> (\<forall>x. lookup h' x = (if x \<in> set (held h t) then None else lookup h x))"
proof (cases "cb t")
  case None
  then show ?thesis by (simp add: reset_def held_def)
next
  case (Some a)
  with assms obtain b where b: "lookup h a = Some (Block b)"
    and ob: "case owned_object b of None \<Rightarrow> True | Some x \<Rightarrow> is_object h x"
    by (auto simp: owns_def split: option.splits cell.splits)
  show ?thesis
    using Some b destroy_block_owned [OF ob]
    by (cases "owned_object b") (auto simp: reset_def held_def)
qed

text \<open>
  C10. Let \<open>this\<close> be the address of a value \<open>t\<close> that owns what it holds. Assigning
  it an empty value \<open>p\<close>, or \<open>nullptr\<close>, leaves it empty, and exactly the cells it
  held (its control block and the object) are released. Assigning it to itself
  returns the state as it is: the same control block, the same object, and no cell
  allocated, so nothing was cloned.
\<close>

theorem assignment_empty_and_self:
  assumes "vars this = Some t" and "owns h t" and "vars p = Some \<lparr>cb = None\<rparr>"
  shows "(\<exists>h'. operator_assign this p (vars, h) = Inr (vars(this \<mapsto> \<lparr>cb = None\<rparr>), h')
            \<and> (\<forall>x. lookup h' x = (if x \<in> set (held h t) then None else lookup h x)))
       \<and> (\<exists>h'. operator_assign_nullptr this (vars, h) = Inr (vars(this \<mapsto> \<lparr>cb = None\<rparr>), h')
            \<and> (\<forall>x. lookup h' x = (if x \<in> set (held h t) then None else lookup h x)))
       \<and> operator_assign this this (vars, h) = Inr (vars, h)"
proof -
  from reset_owns [OF assms(2)] obtain h' where
    r: "reset t h = Inr (t\<lparr>cb := None\<rparr>, h')"
    and l: "\<forall>x. lookup h' x = (if x \<in> set (held h t) then None else lookup h x)"
    by blast
  have e: "t\<lparr>cb := None\<rparr> = \<lparr>cb = None\<rparr>" by simp
  have 1: "\<exists>h'. operator_assign this p (vars, h) = Inr (vars(this \<mapsto> \<lparr>cb = None\<rparr>), h')
            \<and> (\<forall>x. lookup h' x = (if x \<in> set (held h t) then None else lookup h x))"
  proof (cases "p = this")
    case True
    with assms have "t = \<lparr>cb = None\<rparr>" by simp
    then have "held h t = []" and "vars(this \<mapsto> \<lparr>cb = None\<rparr>) = vars"
      using assms(1) by (auto simp: held_def)
    then show ?thesis using True by (simp add: operator_assign_def)
  next
    case False
    then show ?thesis using assms r l e by (auto simp: operator_assign_def)
  qed
  have 2: "\<exists>h'. operator_assign_nullptr this (vars, h) = Inr (vars(this \<mapsto> \<lparr>cb = None\<rparr>), h')
            \<and> (\<forall>x. lookup h' x = (if x \<in> set (held h t) then None else lookup h x))"
    using assms r l e by (auto simp: operator_assign_nullptr_def)
  have 3: "operator_assign this this (vars, h) = Inr (vars, h)"
    by (simp add: operator_assign_def)
  from 1 2 3 show ?thesis by blast
qed

text \<open>
  A value at address 10 holding an object, and an empty value at address 11.
\<close>

theorem assignment_empty_and_self_witness:
  "owns [Some (Object (class_type 1) (5::int)),
         Some (Block (pointer_control_block (class_type 1) (Some 0) default_copy default_delete))]
        \<lparr>cb = Some 1\<rparr>
   \<and> operator_assign 10 11
        ([10 \<mapsto> \<lparr>cb = Some 1\<rparr>, 11 \<mapsto> \<lparr>cb = None\<rparr>],
         [Some (Object (class_type 1) (5::int)),
          Some (Block (pointer_control_block (class_type 1) (Some 0) default_copy default_delete))])
       = Inr ([10 \<mapsto> \<lparr>cb = None\<rparr>, 11 \<mapsto> \<lparr>cb = None\<rparr>], [None, None])
   \<and> operator_assign_nullptr 10
        ([10 \<mapsto> \<lparr>cb = Some 1\<rparr>, 11 \<mapsto> \<lparr>cb = None\<rparr>],
         [Some (Object (class_type 1) (5::int)),
          Some (Block (pointer_control_block (class_type 1) (Some 0) default_copy default_delete))])
       = Inr ([10 \<mapsto> \<lparr>cb = None\<rparr>, 11 \<mapsto> \<lparr>cb = None\<rparr>], [None, None])
   \<and> operator_assign 10 10
        ([10 \<mapsto> \<lparr>cb = Some 1\<rparr>, 11 \<mapsto> \<lparr>cb = None\<rparr>],
         [Some (Object (class_type 1) (5::int)),
          Some (Block (pointer_control_block (class_type 1) (Some 0) default_copy default_delete))])
       = Inr ([10 \<mapsto> \<lparr>cb = Some 1\<rparr>, 11 \<mapsto> \<lparr>cb = None\<rparr>],
              [Some (Object (class_type 1) 5),
               Some (Block (pointer_control_block (class_type 1) (Some 0) default_copy default_delete))])"
  using assignment_empty_and_self
          [of "[10 \<mapsto> \<lparr>cb = Some 1\<rparr>, 11 \<mapsto> \<lparr>cb = None\<rparr>]" 10 "\<lparr>cb = Some 1\<rparr>"
              "[Some (Object (class_type 1) (5::int)),
                Some (Block (pointer_control_block (class_type 1) (Some 0) default_copy default_delete))]"
              11]
  by (simp add: owns_def is_object_def lookup_def operator_assign_def operator_assign_nullptr_def
        reset_def delete_object_def deallocate_def fun_upd_twist)

section \<open>The blocks of a chain: frame lemmas\<close>

lemma chain_block_pointee_Some:
  "chain_block_pointee blk = Some p \<longleftrightarrow>
     (\<exists>U. blk = pointer_control_block U (Some p) default_copy default_delete)"
  by (cases blk rule: chain_block_pointee.cases) auto

lemma block_view_SomeI:
  assumes "cb b = Some a"
      and "lookup h a = Some (Block (pointer_control_block U (Some p) default_copy default_delete))"
      and "lookup h p = Some (Object ty x)"
  shows "block_view h b = Some (a, p, x)"
  using assms by (simp add: block_view_def)

lemma block_view_SomeE:
  assumes "block_view h b = Some (a, p, x)"
  obtains U ty where "cb b = Some a"
    and "lookup h a = Some (Block (pointer_control_block U (Some p) default_copy default_delete))"
    and "lookup h p = Some (Object ty x)"
proof -
  from assms obtain a' where 1: "cb b = Some a'"
    by (cases "cb b") (simp_all add: block_view_def)
  from assms 1 obtain blk where 2: "lookup h a' = Some (Block blk)"
    by (cases "lookup h a'") (simp_all add: block_view_def split: cell.splits)
  from assms 1 2 obtain p' where 3: "chain_block_pointee blk = Some p'"
    by (cases "chain_block_pointee blk") (simp_all add: block_view_def)
  from assms 1 2 3 obtain ty x' where 4: "lookup h p' = Some (Object ty x')"
    by (cases "lookup h p'") (simp_all add: block_view_def split: cell.splits)
  from assms 1 2 3 4 have 5: "a' = a" "p' = p" "x' = x"
    by (simp_all add: block_view_def)
  from 3 obtain U where "blk = pointer_control_block U (Some p') default_copy default_delete"
    unfolding chain_block_pointee_Some by blast
  with 1 2 4 5 that show thesis by simp
qed

lemma block_view_frame:
  assumes "block_view h b = Some (a, p, x)" "lookup h' a = lookup h a" "lookup h' p = lookup h p"
  shows "block_view h' b = Some (a, p, x)"
proof -
  from assms(1) obtain U ty where "cb b = Some a"
    and "lookup h a = Some (Block (pointer_control_block U (Some p) default_copy default_delete))"
    and "lookup h p = Some (Object ty x)"
    by (rule block_view_SomeE)
  with assms(2,3) show ?thesis by (intro block_view_SomeI) simp_all
qed

lemma block_view_less:
  assumes "block_view h b = Some (a, p, x)"
  shows "a < length h" "p < length h" "a \<noteq> p"
proof -
  from assms obtain U ty where
    1: "lookup h a = Some (Block (pointer_control_block U (Some p) default_copy default_delete))"
    and 2: "lookup h p = Some (Object ty x)"
    by (rule block_view_SomeE)
  show "a < length h" using 1 by (rule lookup_Some_less)
  show "p < length h" using 2 by (rule lookup_Some_less)
  show "a \<noteq> p" using 1 2 by auto
qed

lemma footprint_Nil [simp]: "footprint h [] = []"
  by (simp add: footprint_def)

lemma contents_Nil [simp]: "contents h [] = []"
  by (simp add: contents_def)

lemma valid_blocks_Nil [simp]: "valid_blocks h []"
  by (simp add: valid_blocks_def)

lemma footprint_Cons: "footprint h (b # bs) = cells (block_view h b) @ footprint h bs"
  by (simp add: footprint_def)

lemma contents_Cons: "contents h (b # bs) = content (block_view h b) @ contents h bs"
  by (simp add: contents_def)

lemma footprint_append: "footprint h (bs @ cs) = footprint h bs @ footprint h cs"
  by (simp add: footprint_def)

lemma contents_append: "contents h (bs @ cs) = contents h bs @ contents h cs"
  by (simp add: contents_def)

lemma valid_blocks_Cons:
  "valid_blocks h (b # bs) \<longleftrightarrow>
     (\<exists>a p x. block_view h b = Some (a, p, x) \<and> a \<noteq> p
        \<and> a \<notin> set (footprint h bs) \<and> p \<notin> set (footprint h bs))
     \<and> valid_blocks h bs"
  by (auto simp: valid_blocks_def footprint_Cons cells_def)

lemma footprint_less: "x \<in> set (footprint h bs) \<Longrightarrow> x < length h"
proof (induction bs)
  case Nil
  then show ?case by simp
next
  case (Cons b bs)
  show ?case
  proof (cases "block_view h b")
    case None
    with Cons show ?thesis by (simp add: footprint_Cons cells_def)
  next
    case (Some v)
    obtain a p y where "v = (a, p, y)" by (cases v) auto
    with Some have "block_view h b = Some (a, p, y)" by simp
    from block_view_less(1,2) [OF this] Cons Some \<open>v = (a, p, y)\<close>
    show ?thesis by (auto simp: footprint_Cons cells_def)
  qed
qed

lemma views_frame:
  assumes "list_all (\<lambda>b. block_view h b \<noteq> None) bs"
      and "\<forall>x\<in>set (footprint h bs). lookup h' x = lookup h x"
  shows "map (block_view h') bs = map (block_view h) bs"
  using assms
proof (induction bs)
  case Nil
  then show ?case by simp
next
  case (Cons b bs)
  from Cons.prems(1) have "block_view h b \<noteq> None" and rest: "list_all (\<lambda>b. block_view h b \<noteq> None) bs"
    by simp_all
  then obtain a p x where v: "block_view h b = Some (a, p, x)"
    by (cases "block_view h b") auto
  have fp: "set (footprint h (b # bs)) = {a, p} \<union> set (footprint h bs)"
    using v by (simp add: footprint_Cons cells_def)
  from Cons.prems(2) fp have l: "lookup h' a = lookup h a" "lookup h' p = lookup h p"
    by simp_all
  have "block_view h' b = Some (a, p, x)" using v l by (rule block_view_frame)
  with v have "block_view h' b = block_view h b" by simp
  moreover have "\<forall>x\<in>set (footprint h bs). lookup h' x = lookup h x"
    using Cons.prems(2) fp by simp
  with rest have "map (block_view h') bs = map (block_view h) bs"
    by (rule Cons.IH)
  ultimately show ?case by simp
qed

lemma footprint_map: "footprint h bs = concat (map cells (map (block_view h) bs))"
  by (simp add: footprint_def comp_def)

lemma contents_map: "contents h bs = concat (map content (map (block_view h) bs))"
  by (simp add: contents_def comp_def)

lemma footprint_views: "map (block_view h') bs = map (block_view h) bs \<Longrightarrow> footprint h' bs = footprint h bs"
  by (simp only: footprint_map)

lemma contents_views: "map (block_view h') bs = map (block_view h) bs \<Longrightarrow> contents h' bs = contents h bs"
  by (simp only: contents_map)

lemma valid_views:
  assumes "map (block_view h') bs = map (block_view h) bs"
  shows "valid_blocks h' bs = valid_blocks h bs"
proof -
  have "list_all (\<lambda>b. block_view h' b \<noteq> None) bs = list_all (\<lambda>b. block_view h b \<noteq> None) bs"
    using assms by (induction bs) auto
  then show ?thesis using footprint_views [OF assms] by (simp add: valid_blocks_def)
qed

lemma valid_frame:
  assumes "valid_blocks h bs" "\<forall>x\<in>set (footprint h bs). lookup h' x = lookup h x"
  shows "valid_blocks h' bs" "footprint h' bs = footprint h bs" "contents h' bs = contents h bs"
proof -
  have m: "map (block_view h') bs = map (block_view h) bs"
    using assms by (intro views_frame) (auto simp: valid_blocks_def)
  show "valid_blocks h' bs" using valid_views [OF m] assms(1) by simp
  show "footprint h' bs = footprint h bs" using m by (rule footprint_views)
  show "contents h' bs = contents h bs" using m by (rule contents_views)
qed

lemma valid_blocks_append:
  "valid_blocks h (bs @ cs) \<longleftrightarrow>
     valid_blocks h bs \<and> valid_blocks h cs \<and> set (footprint h bs) \<inter> set (footprint h cs) = {}"
  by (auto simp: valid_blocks_def footprint_append)

lemma defined_frame:
  assumes "list_all (\<lambda>b. block_view h b \<noteq> None) bs"
      and "\<forall>x. x < length h \<longrightarrow> lookup h' x = lookup h x"
  shows "map (block_view h') bs = map (block_view h) bs"
proof (rule views_frame [OF assms(1)])
  show "\<forall>x\<in>set (footprint h bs). lookup h' x = lookup h x"
    using assms(2) footprint_less by blast
qed

lemma defined_views:
  assumes "map (block_view h') bs = map (block_view h) bs"
  shows "list_all (\<lambda>b. block_view h' b \<noteq> None) bs = list_all (\<lambda>b. block_view h b \<noteq> None) bs"
  using assms by (induction bs) auto

lemma extend_valid:
  assumes "valid_blocks h bs"
  shows "valid_blocks (h @ ext) bs" "footprint (h @ ext) bs = footprint h bs"
        "contents (h @ ext) bs = contents h bs"
proof -
  have "\<forall>x\<in>set (footprint h bs). lookup (h @ ext) x = lookup h x"
    by (auto dest: footprint_less simp: lookup_append_left)
  from valid_frame [OF assms this]
  show "valid_blocks (h @ ext) bs" "footprint (h @ ext) bs = footprint h bs"
        "contents (h @ ext) bs = contents h bs" by simp_all
qed

section \<open>The operations keep a chain valid\<close>

lemma get_view:
  assumes "block_view h b = Some (a, p, x)"
  shows "get b h = Inr (Some p)"
proof -
  from assms obtain U ty where "cb b = Some a"
    and "lookup h a = Some (Block (pointer_control_block U (Some p) default_copy default_delete))"
    by (rule block_view_SomeE)
  then show ?thesis by (simp add: get_def)
qed

lemma Execute_actions_Cons:
  "Execute_actions (x # xs) s =
     (fst (snd (invoke x s)) # fst (Execute_actions xs (snd (snd (invoke x s)))),
      snd (Execute_actions xs (snd (snd (invoke x s)))))"
  by (simp split: prod.splits)

lemma snd_Execute_actions:
  "snd (Execute_actions xs s) = foldl (\<lambda>s x. snd (snd (invoke x s))) s xs"
  by (induction xs arbitrary: s) (simp_all add: Execute_actions_Cons del: Execute_actions.simps(2))

lemma length_Execute_actions: "length (fst (Execute_actions xs s)) = length xs"
  by (induction xs arbitrary: s) (simp_all add: Execute_actions_Cons del: Execute_actions.simps(2))

lemma Execute_actions_nth:
  assumes "i < length xs"
  shows "fst (Execute_actions xs s) ! i
           = fst (snd (invoke (xs ! i) (foldl (\<lambda>s x. snd (snd (invoke x s))) s (take i xs))))"
  using assms
proof (induction xs arbitrary: s i)
  case Nil
  then show ?case by simp
next
  case (Cons x xs)
  show ?case
  proof (cases i)
    case 0
    then show ?thesis by (simp add: Execute_actions_Cons del: Execute_actions.simps(2))
  next
    case (Suc j)
    with Cons.prems have "j < length xs" by simp
    from Cons.IH [OF this] Suc show ?thesis
      by (simp add: Execute_actions_Cons del: Execute_actions.simps(2))
  qed
qed

lemma invoke_BlockTuple:
  "snd (snd (invoke (BlockTuple xs) s)) = foldl (\<lambda>s x. snd (snd (invoke x s))) s xs"
  using snd_Execute_actions [of xs s] by (cases "Execute_actions xs s") simp

lemma Execute_blocks_valid:
  assumes "valid_blocks h bs"
  shows "\<exists>h'. Execute_blocks bs s h = Inr (snd (Execute_actions (contents h bs) s), h')
           \<and> valid_blocks h' bs
           \<and> footprint h' bs = footprint h bs
           \<and> contents h' bs = fst (Execute_actions (contents h bs) s)
           \<and> length h' = length h
           \<and> (\<forall>y. lookup h' y = lookup h y \<or>
                  (y \<in> set (footprint h bs) \<and>
                   (\<exists>ty x x'. lookup h y = Some (Object ty x) \<and> lookup h' y = Some (Object ty x'))))"
  using assms
proof (induction bs arbitrary: s h)
  case Nil
  then show ?case by simp
next
  case (Cons b bs)
  from Cons.prems obtain a p x where v: "block_view h b = Some (a, p, x)"
    and ap: "a \<noteq> p" and na: "a \<notin> set (footprint h bs)" and np: "p \<notin> set (footprint h bs)"
    and vr: "valid_blocks h bs"
    unfolding valid_blocks_Cons by blast
  from v obtain U ty where cbb: "cb b = Some a"
    and la: "lookup h a = Some (Block (pointer_control_block U (Some p) default_copy default_delete))"
    and lp: "lookup h p = Some (Object ty x)"
    by (rule block_view_SomeE)
  define x' where "x' = fst (snd (invoke x s))"
  define s1 where "s1 = snd (snd (invoke x s))"
  define h1 where "h1 = update_cell p (Object ty x') h"
  have pl: "p < length h" using lp by (rule lookup_Some_less)
  have l1: "lookup h1 y = (if y = p then Some (Object ty x') else lookup h y)" for y
    using pl by (simp add: h1_def)
  have len1: "length h1 = length h" by (simp add: h1_def)
  have ex: "ExecutionBlock_Execute p s h = Inr (s1, h1)"
    using lp by (simp add: ExecutionBlock_Execute_def x'_def s1_def h1_def split: prod.splits)
  have fr: "\<forall>y\<in>set (footprint h bs). lookup h1 y = lookup h y"
    using np by (auto simp: l1)
  note rest = valid_frame [OF vr fr]
  from Cons.IH [OF rest(1), of s1] obtain h' where
    e: "Execute_blocks bs s1 h1 = Inr (snd (Execute_actions (contents h1 bs) s1), h')"
    and v': "valid_blocks h' bs"
    and f': "footprint h' bs = footprint h1 bs"
    and c': "contents h' bs = fst (Execute_actions (contents h1 bs) s1)"
    and len': "length h' = length h1"
    and ch: "\<forall>y. lookup h' y = lookup h1 y \<or>
                  (y \<in> set (footprint h1 bs) \<and>
                   (\<exists>ty x x'. lookup h1 y = Some (Object ty x) \<and> lookup h' y = Some (Object ty x')))"
    by blast
  have la': "lookup h' a = lookup h a"
    using ch na ap rest(2) by (metis l1)
  have lp': "lookup h' p = Some (Object ty x')"
    using ch np rest(2) by (metis l1)
  have vb: "block_view h' b = Some (a, p, x')"
    using cbb la lp' la' by (intro block_view_SomeI) simp_all
  have cont: "contents h (b # bs) = x # contents h bs"
    using v by (simp add: contents_Cons content_def)
  have 1: "Execute_blocks (b # bs) s h = Inr (snd (Execute_actions (contents h (b # bs)) s), h')"
    using get_view [OF v] ex e rest(3)
    by (simp add: cont Execute_actions_Cons s1_def del: Execute_actions.simps)
  have 2: "valid_blocks h' (b # bs)"
    unfolding valid_blocks_Cons using vb ap na np v' f' rest(2) by auto
  have 3: "footprint h' (b # bs) = footprint h (b # bs)"
    using vb v f' rest(2) by (simp add: footprint_Cons cells_def)
  have cont': "contents h' (b # bs) = x' # contents h' bs"
    using vb by (simp add: contents_Cons content_def)
  have 4: "contents h' (b # bs) = fst (Execute_actions (contents h (b # bs)) s)"
    unfolding cont cont' using c' rest(3)
    by (simp add: Execute_actions_Cons s1_def x'_def del: Execute_actions.simps)
  have 5: "length h' = length h" using len' len1 by simp
  have 6: "lookup h' y = lookup h y \<or>
           (y \<in> set (footprint h (b # bs)) \<and>
            (\<exists>ty x x'. lookup h y = Some (Object ty x) \<and> lookup h' y = Some (Object ty x')))" for y
  proof (cases "y = p")
    case True
    then show ?thesis using lp lp' v by (auto simp: footprint_Cons cells_def)
  next
    case False
    then have "lookup h1 y = lookup h y" by (simp add: l1)
    with ch [rule_format, of y] rest(2) show ?thesis
      by (auto simp: footprint_Cons)
  qed
  from 1 2 3 4 5 6 show ?case by blast
qed

lemma Execute_valid:
  assumes "valid_blocks h (m_blocks c)"
  shows "\<exists>h'. Execute c s h = Inr (snd (Execute_actions (contents h (m_blocks c)) s), h')
           \<and> valid_blocks h' (m_blocks c)
           \<and> footprint h' (m_blocks c) = footprint h (m_blocks c)
           \<and> contents h' (m_blocks c) = fst (Execute_actions (contents h (m_blocks c)) s)
           \<and> length h' = length h
           \<and> (\<forall>y. lookup h' y = lookup h y \<or>
                  (y \<in> set (footprint h (m_blocks c)) \<and>
                   (\<exists>ty x x'. lookup h y = Some (Object ty x) \<and> lookup h' y = Some (Object ty x'))))"
  unfolding Execute_def using assms by (rule Execute_blocks_valid)

lemma append_action_eq:
  "append_action x c h =
     Inr (c\<lparr>m_blocks := m_blocks c @ [\<lparr>cb = Some (Suc (length h))\<rparr>]\<rparr>,
          h @ [Some (Object (ExecutionBlock_type (decltype_of x)) x),
               Some (Block (pointer_control_block (ExecutionBlock_type (decltype_of x))
                      (Some (length h)) default_copy default_delete))])"
  by (simp add: append_action_def create_block_def allocate_def polymorphic_value_from_unique_ptr_def
        typeid_def Let_def)

lemma fresh_block_view:
  "block_view (h @ [Some (Object ty x),
                    Some (Block (pointer_control_block U (Some (length h)) default_copy default_delete))]
                 @ ext)
     \<lparr>cb = Some (Suc (length h))\<rparr> = Some (Suc (length h), length h, x)"
  by (rule block_view_SomeI [where U = U and ty = ty]) (simp_all add: lookup_def nth_append)

lemma append_action_valid:
  assumes "valid_blocks h (m_blocks c)"
  shows "\<exists>c' h'. append_action x c h = Inr (c', h')
           \<and> m_blocks c' = m_blocks c @ [\<lparr>cb = Some (Suc (length h))\<rparr>]
           \<and> length h' = length h + 2
           \<and> (\<forall>y. y < length h \<longrightarrow> lookup h' y = lookup h y)
           \<and> valid_blocks h' (m_blocks c')
           \<and> contents h' (m_blocks c') = contents h (m_blocks c) @ [x]
           \<and> footprint h' (m_blocks c') = footprint h (m_blocks c) @ [Suc (length h), length h]"
proof -
  define T where "T = ExecutionBlock_type (decltype_of x)"
  define ext where "ext = [Some (Object T x),
      Some (Block (pointer_control_block T (Some (length h)) default_copy default_delete))]"
  define b where "b = \<lparr>cb = Some (Suc (length h))\<rparr>"
  have e: "append_action x c h = Inr (c\<lparr>m_blocks := m_blocks c @ [b]\<rparr>, h @ ext)"
    by (simp add: append_action_eq T_def ext_def b_def)
  have vb: "block_view (h @ ext) b = Some (Suc (length h), length h, x)"
    using fresh_block_view [of h T x T "[]"] by (simp add: ext_def b_def)
  note old = extend_valid [OF assms, of ext]
  have fb: "footprint (h @ ext) [b] = [Suc (length h), length h]"
    using vb by (simp add: footprint_Cons cells_def)
  have "valid_blocks (h @ ext) [b]"
    using vb by (simp add: valid_blocks_Cons)
  moreover have "set (footprint (h @ ext) (m_blocks c)) \<inter> set (footprint (h @ ext) [b]) = {}"
    by (auto simp: old(2) fb dest: footprint_less)
  ultimately have v: "valid_blocks (h @ ext) (m_blocks c @ [b])"
    using old(1) by (simp add: valid_blocks_append)
  have cs: "contents (h @ ext) (m_blocks c @ [b]) = contents h (m_blocks c) @ [x]"
    using vb old(3) by (simp add: contents_append contents_Cons content_def)
  have fs: "footprint (h @ ext) (m_blocks c @ [b]) = footprint h (m_blocks c) @ [Suc (length h), length h]"
    using fb old(2) by (simp add: footprint_append)
  have "\<forall>y. y < length h \<longrightarrow> lookup (h @ ext) y = lookup h y"
    by (simp add: lookup_append_left)
  moreover have "length (h @ ext) = length h + 2" by (simp add: ext_def)
  ultimately show ?thesis using e v cs fs by (simp add: b_def)
qed

lemma polymorphic_value_copy_view:
  assumes "block_view h b = Some (a, p, x)"
  shows "\<exists>U. polymorphic_value_copy b h =
           Inr (\<lparr>cb = Some (Suc (length h))\<rparr>,
                h @ [Some (Object U x),
                     Some (Block (pointer_control_block U (Some (length h)) default_copy default_delete))])"
proof -
  from assms obtain U ty where "cb b = Some a"
    and "lookup h a = Some (Block (pointer_control_block U (Some p) default_copy default_delete))"
    and "lookup h p = Some (Object ty x)"
    by (rule block_view_SomeE)
  then show ?thesis
    by (simp add: polymorphic_value_copy_def clone_def allocate_def)
qed

lemma copy_blocks_valid:
  assumes "list_all (\<lambda>b. block_view h b \<noteq> None) bs"
  shows "\<exists>bs' ext. copy_blocks bs h = Inr (bs', h @ ext)
           \<and> valid_blocks (h @ ext) bs'
           \<and> contents (h @ ext) bs' = contents h bs
           \<and> (\<forall>y\<in>set (footprint (h @ ext) bs'). length h \<le> y)"
  using assms
proof (induction bs arbitrary: h)
  case Nil
  have "copy_blocks [] h = Inr ([], h @ [])" by simp
  then show ?case by (metis contents_Nil footprint_Nil valid_blocks_Nil empty_iff list.set(1))
next
  case (Cons b bs)
  from Cons.prems have "block_view h b \<noteq> None"
    and dr: "list_all (\<lambda>b. block_view h b \<noteq> None) bs" by simp_all
  then obtain a p x where v: "block_view h b = Some (a, p, x)"
    by (cases "block_view h b") auto
  from polymorphic_value_copy_view [OF v] obtain U where
    c: "polymorphic_value_copy b h =
           Inr (\<lparr>cb = Some (Suc (length h))\<rparr>,
                h @ [Some (Object U x),
                     Some (Block (pointer_control_block U (Some (length h)) default_copy default_delete))])"
    by blast
  define e1 where "e1 = [Some (Object U x),
      Some (Block (pointer_control_block U (Some (length h)) default_copy default_delete))]"
  define h1 where "h1 = h @ e1"
  define b' where "b' = \<lparr>cb = Some (Suc (length h))\<rparr>"
  have m: "map (block_view h1) bs = map (block_view h) bs"
    using dr by (rule defined_frame) (simp add: h1_def lookup_append_left)
  have dr1: "list_all (\<lambda>b. block_view h1 b \<noteq> None) bs"
    using defined_views [OF m] dr by simp
  from Cons.IH [OF dr1] obtain bs' ext where
    cr: "copy_blocks bs h1 = Inr (bs', h1 @ ext)"
    and vr: "valid_blocks (h1 @ ext) bs'"
    and cn: "contents (h1 @ ext) bs' = contents h1 bs"
    and fr: "\<forall>y\<in>set (footprint (h1 @ ext) bs'). length h1 \<le> y"
    by blast
  have len1: "length h1 = length h + 2" by (simp add: h1_def e1_def)
  have vb: "block_view (h1 @ ext) b' = Some (Suc (length h), length h, x)"
    using fresh_block_view [of h U x U ext] by (simp add: h1_def e1_def b'_def)
  have 1: "copy_blocks (b # bs) h = Inr (b' # bs', h @ (e1 @ ext))"
    using c cr by (simp add: h1_def e1_def b'_def)
  have 2: "valid_blocks (h @ (e1 @ ext)) (b' # bs')"
    unfolding valid_blocks_Cons using vb vr fr len1 by (auto simp: h1_def)
  have 3: "contents (h @ (e1 @ ext)) (b' # bs') = contents h (b # bs)"
    using vb v cn contents_views [OF m] by (simp add: contents_Cons content_def h1_def)
  have 4: "\<forall>y\<in>set (footprint (h @ (e1 @ ext)) (b' # bs')). length h \<le> y"
    using vb fr len1 by (auto simp: footprint_Cons cells_def h1_def)
  from 1 2 3 4 show ?case by blast
qed

lemma append_chain_valid:
  assumes "valid_blocks h (m_blocks c)" and "valid_blocks h (m_blocks rhs)"
  shows "\<exists>c' ext. append_chain rhs c h = Inr (c', h @ ext)
           \<and> valid_blocks (h @ ext) (m_blocks c')
           \<and> contents (h @ ext) (m_blocks c') = contents h (m_blocks c) @ contents h (m_blocks rhs)
           \<and> set (footprint (h @ ext) (m_blocks c'))
               \<subseteq> set (footprint h (m_blocks c)) \<union> {y. length h \<le> y}"
proof -
  from assms(2) have "list_all (\<lambda>b. block_view h b \<noteq> None) (m_blocks rhs)"
    by (simp add: valid_blocks_def)
  from copy_blocks_valid [OF this] obtain bs' ext where
    c: "copy_blocks (m_blocks rhs) h = Inr (bs', h @ ext)"
    and v: "valid_blocks (h @ ext) bs'"
    and cn: "contents (h @ ext) bs' = contents h (m_blocks rhs)"
    and f: "\<forall>y\<in>set (footprint (h @ ext) bs'). length h \<le> y"
    by blast
  note old = extend_valid [OF assms(1), of ext]
  have d: "set (footprint (h @ ext) (m_blocks c)) \<inter> set (footprint (h @ ext) bs') = {}"
  proof -
    have "y < length h" if "y \<in> set (footprint h (m_blocks c))" for y
      using that by (rule footprint_less)
    with f show ?thesis unfolding old(2) by fastforce
  qed
  have 1: "append_chain rhs c h = Inr (c\<lparr>m_blocks := m_blocks c @ bs'\<rparr>, h @ ext)"
    using c by (simp add: append_chain_def)
  have 2: "valid_blocks (h @ ext) (m_blocks c @ bs')"
    using old(1) v d by (simp add: valid_blocks_append)
  have 3: "contents (h @ ext) (m_blocks c @ bs') = contents h (m_blocks c) @ contents h (m_blocks rhs)"
    using old(3) cn by (simp add: contents_append)
  have 4: "set (footprint (h @ ext) (m_blocks c @ bs'))
               \<subseteq> set (footprint h (m_blocks c)) \<union> {y. length h \<le> y}"
    using f by (auto simp: footprint_append old(2))
  from 1 2 3 4 show ?thesis by auto
qed

lemma ExecutionChain_copy_valid:
  assumes "valid_blocks h (m_blocks c)"
  shows "\<exists>c2 h1. ExecutionChain_copy c h = Inr (c2, h1)
           \<and> valid_blocks h1 (m_blocks c) \<and> valid_blocks h1 (m_blocks c2)
           \<and> footprint h1 (m_blocks c) = footprint h (m_blocks c)
           \<and> contents h1 (m_blocks c) = contents h (m_blocks c)
           \<and> contents h1 (m_blocks c2) = contents h (m_blocks c)
           \<and> set (footprint h1 (m_blocks c)) \<inter> set (footprint h1 (m_blocks c2)) = {}"
proof -
  from assms have "list_all (\<lambda>b. block_view h b \<noteq> None) (m_blocks c)"
    by (simp add: valid_blocks_def)
  from copy_blocks_valid [OF this] obtain bs' ext where
    c: "copy_blocks (m_blocks c) h = Inr (bs', h @ ext)"
    and v: "valid_blocks (h @ ext) bs'"
    and cn: "contents (h @ ext) bs' = contents h (m_blocks c)"
    and f: "\<forall>y\<in>set (footprint (h @ ext) bs'). length h \<le> y"
    by blast
  note old = extend_valid [OF assms, of ext]
  have d: "set (footprint (h @ ext) (m_blocks c)) \<inter> set (footprint (h @ ext) bs') = {}"
  proof -
    have "y < length h" if "y \<in> set (footprint h (m_blocks c))" for y
      using that by (rule footprint_less)
    with f show ?thesis unfolding old(2) by fastforce
  qed
  have "ExecutionChain_copy c h = Inr (\<lparr>m_blocks = bs'\<rparr>, h @ ext)"
    using c by (simp add: ExecutionChain_copy_def)
  with v cn d old show ?thesis by simp
qed

lemma reset_view:
  assumes "block_view h b = Some (a, p, x)"
  shows "reset b h = Inr (b\<lparr>cb := None\<rparr>, deallocate a (deallocate p h))"
proof -
  from assms obtain U ty where "cb b = Some a"
    and "lookup h a = Some (Block (pointer_control_block U (Some p) default_copy default_delete))"
    and "lookup h p = Some (Object ty x)"
    by (rule block_view_SomeE)
  then show ?thesis
    by (simp add: reset_def delete_object_def)
qed

lemma destroy_blocks_valid:
  assumes "valid_blocks h bs"
  shows "\<exists>h'. destroy_blocks bs h = Inr h' \<and> length h' = length h
           \<and> (\<forall>y. lookup h' y = (if y \<in> set (footprint h bs) then None else lookup h y))"
  using assms
proof (induction bs arbitrary: h)
  case Nil
  then show ?case by simp
next
  case (Cons b bs)
  from Cons.prems obtain a p x where v: "block_view h b = Some (a, p, x)"
    and ap: "a \<noteq> p" and na: "a \<notin> set (footprint h bs)" and np: "p \<notin> set (footprint h bs)"
    and vr: "valid_blocks h bs"
    unfolding valid_blocks_Cons by blast
  define h1 where "h1 = deallocate a (deallocate p h)"
  have l1: "lookup h1 y = (if y = a \<or> y = p then None else lookup h y)" for y
    by (simp add: h1_def)
  have fr: "\<forall>y\<in>set (footprint h bs). lookup h1 y = lookup h y"
    using na np by (auto simp: l1)
  note rest = valid_frame [OF vr fr]
  from Cons.IH [OF rest(1)] obtain h' where
    d: "destroy_blocks bs h1 = Inr h'" and len: "length h' = length h1"
    and l': "\<forall>y. lookup h' y = (if y \<in> set (footprint h1 bs) then None else lookup h1 y)"
    by blast
  have 1: "destroy_blocks (b # bs) h = Inr h'"
    using reset_view [OF v] d by (simp add: h1_def)
  have 2: "length h' = length h" using len by (simp add: h1_def)
  have 3: "lookup h' y = (if y \<in> set (footprint h (b # bs)) then None else lookup h y)" for y
    using l' [rule_format, of y] v rest(2) by (auto simp: l1 footprint_Cons cells_def)
  from 1 2 3 show ?case by blast
qed

lemma clear_valid:
  assumes "valid_blocks h (m_blocks c)"
  shows "\<exists>c' h'. clear c h = Inr (c', h') \<and> m_blocks c' = [] \<and> length h' = length h
           \<and> (\<forall>y. lookup h' y = (if y \<in> set (footprint h (m_blocks c)) then None else lookup h y))"
proof -
  from destroy_blocks_valid [OF assms] obtain h' where
    "destroy_blocks (m_blocks c) h = Inr h'" "length h' = length h"
    "\<forall>y. lookup h' y = (if y \<in> set (footprint h (m_blocks c)) then None else lookup h y)"
    by blast
  then show ?thesis by (simp add: clear_def)
qed

section \<open>Execution, reassignment and copies of a chain\<close>

lemma one_block_chain_built:
  "append_action add_one ExecutionChain_default [] = Inr (one_block_chain, one_block_heap)"
  by (simp add: append_action_eq ExecutionChain_default_def one_block_chain_def one_block_heap_def
        add_one_def)

lemma append_all_valid:
  assumes "valid_blocks (h @ ext) (m_blocks c0)" and "list_all (source_valid h) ops"
  shows "\<exists>c ext'. append_all ops c0 (h @ ext) = Inr (c, h @ ext')
           \<and> valid_blocks (h @ ext') (m_blocks c)
           \<and> contents (h @ ext') (m_blocks c)
               = contents (h @ ext) (m_blocks c0) @ concat (map (appended h) ops)"
  using assms
proof (induction ops arbitrary: c0 ext)
  case Nil
  then show ?case by auto
next
  case (Cons x ops)
  from Cons.prems(2) have sx: "source_valid h x" and so: "list_all (source_valid h) ops"
    by simp_all
  have "\<exists>c1 e1. append_source x c0 (h @ ext) = Inr (c1, h @ e1)
          \<and> valid_blocks (h @ e1) (m_blocks c1)
          \<and> contents (h @ e1) (m_blocks c1) = contents (h @ ext) (m_blocks c0) @ appended h x"
  proof (cases x)
    case (Action a)
    from append_action_valid [OF Cons.prems(1), of a] obtain c' h' where
      a: "append_action a c0 (h @ ext) = Inr (c', h')"
      and v: "valid_blocks h' (m_blocks c')"
      and c: "contents h' (m_blocks c') = contents (h @ ext) (m_blocks c0) @ [a]"
      by blast
    from a have "\<exists>e1. h' = h @ e1" by (auto simp: append_action_eq)
    then obtain e1 where "h' = h @ e1" by blast
    with a v c Action show ?thesis by auto
  next
    case (Chain rhs)
    with sx have vr: "valid_blocks h (m_blocks rhs)" by simp
    note r = extend_valid [OF vr, of ext]
    from append_chain_valid [OF Cons.prems(1) r(1)] obtain c' e where
      a: "append_chain rhs c0 (h @ ext) = Inr (c', (h @ ext) @ e)"
      and v: "valid_blocks ((h @ ext) @ e) (m_blocks c')"
      and c: "contents ((h @ ext) @ e) (m_blocks c')
                = contents (h @ ext) (m_blocks c0) @ contents (h @ ext) (m_blocks rhs)"
      by blast
    have "append_source x c0 (h @ ext) = Inr (c', h @ (ext @ e))
          \<and> valid_blocks (h @ (ext @ e)) (m_blocks c')
          \<and> contents (h @ (ext @ e)) (m_blocks c') = contents (h @ ext) (m_blocks c0) @ appended h x"
      using a v c r(3) Chain by simp
    then show ?thesis by blast
  qed
  then obtain c1 e1 where
    a1: "append_source x c0 (h @ ext) = Inr (c1, h @ e1)"
    and v1: "valid_blocks (h @ e1) (m_blocks c1)"
    and c1: "contents (h @ e1) (m_blocks c1) = contents (h @ ext) (m_blocks c0) @ appended h x"
    by blast
  from Cons.IH [OF v1 so] obtain c e' where
    "append_all ops c1 (h @ e1) = Inr (c, h @ e')"
    "valid_blocks (h @ e') (m_blocks c)"
    "contents (h @ e') (m_blocks c) = contents (h @ e1) (m_blocks c1) @ concat (map (appended h) ops)"
    by blast
  with a1 c1 show ?case by auto
qed

lemma actions_of_not_block_tuple: "list_all (\<lambda>y. \<not> is_block_tuple y) (actions_of x)"
proof (induction x)
  case (BlockTuple ys)
  then show ?case by (induction ys) simp_all
qed simp_all

lemma concat_actions_of_not_block_tuple:
  "list_all (\<lambda>y. \<not> is_block_tuple y) (concat (map actions_of xs))"
  by (induction xs) (simp_all add: actions_of_not_block_tuple)

lemma invoke_actions_of:
  "snd (snd (invoke x s)) = foldl (\<lambda>s x. snd (snd (invoke x s))) s (actions_of x)"
proof (induction x arbitrary: s)
  case (BlockTuple ys)
  have "snd (Execute_actions ys s)
          = foldl (\<lambda>s x. snd (snd (invoke x s))) s (concat (map actions_of ys))"
    using BlockTuple
  proof (induction ys arbitrary: s)
    case Nil
    then show ?case by simp
  next
    case (Cons y ys)
    have "snd (Execute_actions (y # ys) s) = snd (Execute_actions ys (snd (snd (invoke y s))))"
      by (simp add: Execute_actions_Cons del: Execute_actions.simps(2))
    also have "\<dots> = foldl (\<lambda>s x. snd (snd (invoke x s))) (snd (snd (invoke y s)))
                       (concat (map actions_of ys))"
      using Cons by simp
    also have "snd (snd (invoke y s)) = foldl (\<lambda>s x. snd (snd (invoke x s))) s (actions_of y)"
      using Cons.prems by simp
    finally show ?case by simp
  qed
  then show ?case
    using snd_Execute_actions [of ys s] by (simp add: invoke_BlockTuple del: invoke.simps)
qed simp_all

lemma foldl_actions_of:
  "foldl (\<lambda>s x. snd (snd (invoke x s))) s (concat (map actions_of xs))
     = foldl (\<lambda>s x. snd (snd (invoke x s))) s xs"
proof (induction xs arbitrary: s)
  case Nil
  then show ?case by simp
next
  case (Cons x xs)
  then show ?case using invoke_actions_of [of x s] by simp
qed

lemma Execute_actions_append:
  "Execute_actions (xs @ ys) s =
     (fst (Execute_actions xs s) @ fst (Execute_actions ys (snd (Execute_actions xs s))),
      snd (Execute_actions ys (snd (Execute_actions xs s))))"
  by (induction xs arbitrary: s) (simp_all add: Execute_actions_Cons del: Execute_actions.simps(2))

lemma actions_of_invoke:
  assumes "\<not> is_block_tuple x"
  shows "actions_of (fst (snd (invoke x s))) = [fst (snd (invoke x s))]"
  using assms by (cases x) (auto split: prod.splits if_splits option.splits)

lemma concat_actions_of_after:
  assumes "\<And>y s. y \<in> set ys
             \<Longrightarrow> actions_of (fst (snd (invoke y s))) = fst (Execute_actions (actions_of y) s)"
  shows "concat (map actions_of (fst (Execute_actions ys s)))
           = fst (Execute_actions (concat (map actions_of ys)) s)"
  using assms
proof (induction ys arbitrary: s)
  case Nil
  then show ?case by simp
next
  case (Cons y ys)
  have 1: "actions_of (fst (snd (invoke y s))) = fst (Execute_actions (actions_of y) s)"
    using Cons.prems by simp
  have 2: "concat (map actions_of (fst (Execute_actions ys (snd (snd (invoke y s))))))
             = fst (Execute_actions (concat (map actions_of ys)) (snd (snd (invoke y s))))"
    using Cons by simp
  have 3: "snd (Execute_actions (actions_of y) s) = snd (snd (invoke y s))"
    using invoke_actions_of [of y s] by (simp add: snd_Execute_actions)
  show ?case
    by (simp add: Execute_actions_Cons Execute_actions_append 1 2 3 del: Execute_actions.simps(2))
qed

lemma actions_of_after:
  "actions_of (fst (snd (invoke x s))) = fst (Execute_actions (actions_of x) s)"
proof (induction x arbitrary: s)
  case (BlockTuple ys)
  from concat_actions_of_after [of ys s] BlockTuple show ?case
    by (cases "Execute_actions ys s") simp
next
  case (Functor n q ops)
  show ?case using actions_of_invoke [of "Functor n q ops" s]
    by (simp add: Execute_actions_Cons del: Execute_actions.simps(2) invoke.simps)
next
  case (IfThen p t)
  show ?case using actions_of_invoke [of "IfThen p t" s]
    by (simp add: Execute_actions_Cons del: Execute_actions.simps(2) invoke.simps)
next
  case (IfThenElse p t e)
  show ?case using actions_of_invoke [of "IfThenElse p t e" s]
    by (simp add: Execute_actions_Cons del: Execute_actions.simps(2) invoke.simps)
next
  case (TryFallback t f)
  show ?case using actions_of_invoke [of "TryFallback t f" s]
    by (simp add: Execute_actions_Cons del: Execute_actions.simps(2) invoke.simps)
qed

text \<open>
  C1. Take any list of appends (of actions, of sequences, of the blocks of chains that
  are valid in the store the appends start in) and perform them on a
  default-constructed chain. Every append succeeds, and the chain then holds one block
  for each appended action and for each appended sequence, in the order of the appends
  (a chain contributing its blocks in their order, once per append). The appended
  actions are these blocks with every sequence replaced by its elements, in their
  order: none of them is a sequence. Executing the chain succeeds: the arguments it
  hands back are those obtained by calling each of the appended actions once, in
  that order, each on the arguments the previous one left; the result of a call
  (\<open>fst (invoke x s)\<close>) is not used, so no action is skipped whatever the actions
  return. Afterwards the chain holds each of the appended actions in the state one
  call leaves it in.
\<close>

theorem Execute_calls_appended_in_order:
  assumes "list_all (source_valid h) ops"
  shows "\<exists>c h1 h2. append_all ops ExecutionChain_default h = Inr (c, h1)
           \<and> contents h1 (m_blocks c) = concat (map (appended h) ops)
           \<and> list_all (\<lambda>x. \<not> is_block_tuple x)
               (concat (map actions_of (concat (map (appended h) ops))))
           \<and> Execute c s h1 =
               Inr (foldl (\<lambda>s x. snd (snd (invoke x s))) s
                      (concat (map actions_of (concat (map (appended h) ops)))), h2)
           \<and> concat (map actions_of (contents h2 (m_blocks c)))
               = fst (Execute_actions (concat (map actions_of (concat (map (appended h) ops)))) s)"
proof -
  have "valid_blocks (h @ []) (m_blocks ExecutionChain_default)"
    by (simp add: ExecutionChain_default_def)
  from append_all_valid [OF this assms] obtain c ext' where
    a: "append_all ops ExecutionChain_default h = Inr (c, h @ ext')"
    and v: "valid_blocks (h @ ext') (m_blocks c)"
    and c: "contents (h @ ext') (m_blocks c) = concat (map (appended h) ops)"
    by (auto simp: ExecutionChain_default_def)
  from Execute_valid [OF v, of s] obtain h2 where
    e: "Execute c s (h @ ext') = Inr (snd (Execute_actions (contents (h @ ext') (m_blocks c)) s), h2)"
    and f: "contents h2 (m_blocks c) = fst (Execute_actions (contents (h @ ext') (m_blocks c)) s)"
    by blast
  have g: "concat (map actions_of (contents h2 (m_blocks c)))
             = fst (Execute_actions (concat (map actions_of (concat (map (appended h) ops)))) s)"
    unfolding f c by (rule concat_actions_of_after) (rule actions_of_after)
  have n: "list_all (\<lambda>x. \<not> is_block_tuple x)
             (concat (map actions_of (concat (map (appended h) ops))))"
    by (rule concat_actions_of_not_block_tuple)
  from a c e n g show ?thesis by (simp add: snd_Execute_actions foldl_actions_of)
qed

text \<open>
  The block of a chain, a sequence of two actions, and an action:
  \<open>(((0 + 1) * 4) + 1) * 4 = 20\<close>. The chain holds three blocks and calls four
  actions; \<open>times_four\<close> is called a second time although it has returned false,
  and each of its two copies has counted one call.
\<close>

theorem Execute_calls_appended_in_order_witness:
  "list_all (source_valid one_block_heap)
      [Chain one_block_chain, Action (BlockTuple [times_four, add_one]), Action times_four]
   \<and> (\<exists>c h1 h2.
        append_all [Chain one_block_chain, Action (BlockTuple [times_four, add_one]), Action times_four]
          ExecutionChain_default one_block_heap = Inr (c, h1)
        \<and> contents h1 (m_blocks c) = [add_one, BlockTuple [times_four, add_one], times_four]
        \<and> list_all (\<lambda>x. \<not> is_block_tuple x) [add_one, times_four, add_one, times_four]
        \<and> Execute c (0::int) h1 = Inr (20, h2)
        \<and> concat (map actions_of (contents h2 (m_blocks c)))
            = [add_one,
               Functor 1 (Suc 0) (non_const_only (bool_operator (\<lambda>q a. (False, Suc q, a * 4)))),
               add_one,
               Functor 1 (Suc 0) (non_const_only (bool_operator (\<lambda>q a. (False, Suc q, a * 4))))])"
  using Execute_calls_appended_in_order
          [of one_block_heap
              "[Chain one_block_chain, Action (BlockTuple [times_four, add_one]), Action times_four]" 0]
  by (simp add: add_one_def times_four_def one_block_heap_def one_block_chain_def
        valid_blocks_def footprint_def contents_def cells_def content_def block_view_def
        lookup_def)



text \<open>
  C5. Reassigning a valid chain \<open>c\<close> from \<open>x\<close> (an action or a sequence) succeeds;
  every cell of the blocks \<open>c\<close> had is released, and \<open>c\<close> then holds \<open>x\<close> alone, as
  does a chain constructed from \<open>x\<close> in any store \<open>h0\<close>. Executing either calls \<open>x\<close>
  once: both hand back the same arguments and both leave \<open>x\<close> in the same state.
\<close>

theorem reassign_replaces_all:
  assumes "valid_blocks h (m_blocks c)"
  shows "\<exists>c' h' f hf. operator_assign_from x c h = Inr (c', h')
           \<and> ExecutionChain_from x h0 = Inr (f, hf)
           \<and> (\<forall>y\<in>set (footprint h (m_blocks c)). lookup h' y = None)
           \<and> contents h' (m_blocks c') = [x]
           \<and> contents hf (m_blocks f) = [x]
           \<and> (\<forall>s. \<exists>g gf. Execute c' s h' = Inr (snd (snd (invoke x s)), g)
                  \<and> Execute f s hf = Inr (snd (snd (invoke x s)), gf)
                  \<and> contents g (m_blocks c') = [fst (snd (invoke x s))]
                  \<and> contents gf (m_blocks f) = [fst (snd (invoke x s))])"
proof -
  from clear_valid [OF assms] obtain c1 h1 where
    cl: "clear c h = Inr (c1, h1)" and e: "m_blocks c1 = []" and len: "length h1 = length h"
    and l1: "\<forall>y. lookup h1 y = (if y \<in> set (footprint h (m_blocks c)) then None else lookup h y)"
    by blast
  have v1: "valid_blocks h1 (m_blocks c1)" by (simp add: e)
  from append_action_valid [OF v1, of x] obtain c' h' where
    a: "append_action x c1 h1 = Inr (c', h')"
    and k: "\<forall>y. y < length h1 \<longrightarrow> lookup h' y = lookup h1 y"
    and v': "valid_blocks h' (m_blocks c')"
    and c': "contents h' (m_blocks c') = contents h1 (m_blocks c1) @ [x]"
    by blast
  have v0: "valid_blocks h0 (m_blocks ExecutionChain_default)"
    by (simp add: ExecutionChain_default_def)
  from append_action_valid [OF v0, of x] obtain f hf where
    af: "append_action x ExecutionChain_default h0 = Inr (f, hf)"
    and vf: "valid_blocks hf (m_blocks f)"
    and cf: "contents hf (m_blocks f) = contents h0 (m_blocks ExecutionChain_default) @ [x]"
    by blast
  have 1: "operator_assign_from x c h = Inr (c', h')"
    using cl a by (simp add: operator_assign_from_def operator_pipe_assign_def)
  have 2: "ExecutionChain_from x h0 = Inr (f, hf)"
    using af by (simp add: ExecutionChain_from_def)
  have 3: "\<forall>y\<in>set (footprint h (m_blocks c)). lookup h' y = None"
    using k l1 len by (auto dest: footprint_less)
  have 4: "contents h' (m_blocks c') = [x]" using c' e by simp
  have 5: "contents hf (m_blocks f) = [x]" using cf by (simp add: ExecutionChain_default_def)
  have 6: "\<exists>g. Execute c' s h' = Inr (snd (snd (invoke x s)), g)
             \<and> contents g (m_blocks c') = [fst (snd (invoke x s))]" for s
    using Execute_valid [OF v', of s] 4 by (auto split: prod.splits)
  have 7: "\<exists>gf. Execute f s hf = Inr (snd (snd (invoke x s)), gf)
             \<and> contents gf (m_blocks f) = [fst (snd (invoke x s))]" for s
    using Execute_valid [OF vf, of s] 5 by (auto split: prod.splits)
  have 8: "\<exists>g gf. Execute c' s h' = Inr (snd (snd (invoke x s)), g)
                  \<and> Execute f s hf = Inr (snd (snd (invoke x s)), gf)
                  \<and> contents g (m_blocks c') = [fst (snd (invoke x s))]
                  \<and> contents gf (m_blocks f) = [fst (snd (invoke x s))]" for s
    using 6 [of s] 7 [of s] by blast
  from 1 2 3 4 5 8 show ?thesis by blast
qed

text \<open>
  Reassigning the chain that holds \<open>add_one\<close> from \<open>times_four\<close>: its two cells are released
  and \<open>3\<close> becomes \<open>12\<close>, as with a chain constructed from \<open>times_four\<close>.
\<close>

theorem reassign_replaces_all_witness:
  "valid_blocks one_block_heap (m_blocks one_block_chain)
   \<and> (\<exists>c' h' f hf. operator_assign_from times_four one_block_chain one_block_heap = Inr (c', h')
        \<and> ExecutionChain_from times_four [] = Inr (f, hf)
        \<and> lookup h' 0 = None \<and> lookup h' 1 = None
        \<and> (\<exists>g gf. Execute c' (3::int) h' = Inr (12, g) \<and> Execute f (3::int) hf = Inr (12, gf)))"
  using reassign_replaces_all [of one_block_heap one_block_chain times_four "[]"]
  by (simp add: add_one_def times_four_def one_block_heap_def one_block_chain_def
        valid_blocks_def footprint_def contents_def cells_def content_def block_view_def
        lookup_def Execute_def get_def ExecutionBlock_Execute_def update_cell_def Let_def
        append_action_def create_block_def allocate_def polymorphic_value_from_unique_ptr_def
        typeid_def ExecutionChain_default_def
        clear_def reset_def delete_object_def deallocate_def
        operator_assign_from_def operator_pipe_assign_def ExecutionChain_from_def)

lemma same_contents_same_Execute:
  assumes "valid_blocks h (m_blocks c)" "valid_blocks g (m_blocks c)"
      and "contents g (m_blocks c) = contents h (m_blocks c)"
  shows "arguments_after (Execute c s g) = arguments_after (Execute c s h)"
proof -
  from Execute_valid [OF assms(1), of s] Execute_valid [OF assms(2), of s] assms(3)
  show ?thesis by (auto simp: arguments_after_def)
qed

lemma mutate_step:
  assumes vc: "valid_blocks h (m_blocks c)"
      and vo: "valid_blocks h (m_blocks other)"
      and dj: "set (footprint h (m_blocks c)) \<inter> set (footprint h (m_blocks other)) = {}"
  shows "\<exists>c' h'. mutate m c other h = Inr (c', h')
           \<and> valid_blocks h' (m_blocks c')
           \<and> (\<forall>y\<in>set (footprint h (m_blocks other)). lookup h' y = lookup h y)
           \<and> set (footprint h' (m_blocks c')) \<inter> set (footprint h (m_blocks other)) = {}"
proof (cases m)
  case (Append x)
  from append_action_valid [OF vc, of x] obtain c' h' where
    a: "append_action x c h = Inr (c', h')"
    and k: "\<forall>y. y < length h \<longrightarrow> lookup h' y = lookup h y"
    and v: "valid_blocks h' (m_blocks c')"
    and f: "footprint h' (m_blocks c') = footprint h (m_blocks c) @ [Suc (length h), length h]"
    by blast
  have "\<forall>y\<in>set (footprint h (m_blocks other)). lookup h' y = lookup h y"
    using k by (auto dest: footprint_less)
  moreover have "set (footprint h' (m_blocks c')) \<inter> set (footprint h (m_blocks other)) = {}"
    using dj by (auto simp: f dest: footprint_less)
  ultimately show ?thesis using a v Append by (simp add: operator_pipe_assign_def)
next
  case AppendChain
  from append_chain_valid [OF vc vo] obtain c' ext where
    a: "append_chain other c h = Inr (c', h @ ext)"
    and v: "valid_blocks (h @ ext) (m_blocks c')"
    and f: "set (footprint (h @ ext) (m_blocks c'))
               \<subseteq> set (footprint h (m_blocks c)) \<union> {y. length h \<le> y}"
    by blast
  have "\<forall>y\<in>set (footprint h (m_blocks other)). lookup (h @ ext) y = lookup h y"
    by (auto dest: footprint_less simp: lookup_append_left)
  moreover have "set (footprint (h @ ext) (m_blocks c')) \<inter> set (footprint h (m_blocks other)) = {}"
  proof -
    have "y < length h" if "y \<in> set (footprint h (m_blocks other))" for y
      using that by (rule footprint_less)
    with f dj show ?thesis by fastforce
  qed
  ultimately show ?thesis using a v AppendChain by auto
next
  case Clear
  from clear_valid [OF vc] obtain c' h' where
    a: "clear c h = Inr (c', h')" and e: "m_blocks c' = []"
    and l: "\<forall>y. lookup h' y = (if y \<in> set (footprint h (m_blocks c)) then None else lookup h y)"
    by blast
  have "\<forall>y\<in>set (footprint h (m_blocks other)). lookup h' y = lookup h y"
    using l dj by auto
  then show ?thesis using a e Clear by simp
next
  case (Reassign x)
  from clear_valid [OF vc] obtain c1 h1 where
    a: "clear c h = Inr (c1, h1)" and e: "m_blocks c1 = []" and len: "length h1 = length h"
    and l: "\<forall>y. lookup h1 y = (if y \<in> set (footprint h (m_blocks c)) then None else lookup h y)"
    by blast
  have v1: "valid_blocks h1 (m_blocks c1)" by (simp add: e)
  from append_action_valid [OF v1, of x] obtain c' h' where
    b: "append_action x c1 h1 = Inr (c', h')"
    and k: "\<forall>y. y < length h1 \<longrightarrow> lookup h' y = lookup h1 y"
    and v: "valid_blocks h' (m_blocks c')"
    and f: "footprint h' (m_blocks c') = footprint h1 (m_blocks c1) @ [Suc (length h1), length h1]"
    by blast
  have 1: "\<forall>y\<in>set (footprint h (m_blocks other)). lookup h' y = lookup h y"
  proof
    fix y assume y: "y \<in> set (footprint h (m_blocks other))"
    then have "y < length h1" using len by (auto dest: footprint_less)
    with k have "lookup h' y = lookup h1 y" by simp
    also have "\<dots> = lookup h y" using l y dj by auto
    finally show "lookup h' y = lookup h y" .
  qed
  have 2: "set (footprint h' (m_blocks c')) \<inter> set (footprint h (m_blocks other)) = {}"
    using len by (auto simp: f e dest: footprint_less)
  have "mutate m c other h = Inr (c', h')"
    using a b Reassign by (simp add: operator_assign_from_def operator_pipe_assign_def)
  with v 1 2 show ?thesis by blast
qed

lemma mutate_all_frame:
  assumes "valid_blocks h (m_blocks c)"
      and "valid_blocks h (m_blocks other)"
      and "set (footprint h (m_blocks c)) \<inter> set (footprint h (m_blocks other)) = {}"
  shows "\<exists>c' h'. mutate_all ms c other h = Inr (c', h')
           \<and> (\<forall>y\<in>set (footprint h (m_blocks other)). lookup h' y = lookup h y)"
  using assms
proof (induction ms arbitrary: c h)
  case Nil
  then show ?case by simp
next
  case (Cons m ms)
  from mutate_step [OF Cons.prems, of m] obtain c1 h1 where
    s: "mutate m c other h = Inr (c1, h1)"
    and v1: "valid_blocks h1 (m_blocks c1)"
    and l1: "\<forall>y\<in>set (footprint h (m_blocks other)). lookup h1 y = lookup h y"
    and d1: "set (footprint h1 (m_blocks c1)) \<inter> set (footprint h (m_blocks other)) = {}"
    by blast
  note o = valid_frame [OF Cons.prems(2) l1]
  from Cons.IH [OF v1 o(1)] d1 o(2) obtain c' h' where
    r: "mutate_all ms c1 other h1 = Inr (c', h')"
    and l': "\<forall>y\<in>set (footprint h1 (m_blocks other)). lookup h' y = lookup h1 y"
    by auto
  have "\<forall>y\<in>set (footprint h (m_blocks other)). lookup h' y = lookup h y"
    using l' l1 o(2) by simp
  with s r show ?case by simp
qed

lemma mutate_all_behaviour:
  assumes "valid_blocks h (m_blocks c)"
      and "valid_blocks h (m_blocks other)"
      and "set (footprint h (m_blocks c)) \<inter> set (footprint h (m_blocks other)) = {}"
  shows "\<exists>c' h'. mutate_all ms c other h = Inr (c', h')
           \<and> valid_blocks h' (m_blocks other)
           \<and> footprint h' (m_blocks other) = footprint h (m_blocks other)
           \<and> contents h' (m_blocks other) = contents h (m_blocks other)
           \<and> (\<forall>s. arguments_after (Execute other s h') = arguments_after (Execute other s h))"
proof -
  from mutate_all_frame [OF assms, of ms] obtain c' h' where
    m: "mutate_all ms c other h = Inr (c', h')"
    and l: "\<forall>y\<in>set (footprint h (m_blocks other)). lookup h' y = lookup h y"
    by blast
  note o = valid_frame [OF assms(2) l]
  have "arguments_after (Execute other s h') = arguments_after (Execute other s h)" for s
    using assms(2) o(1) o(3) by (rule same_contents_same_Execute)
  with m o show ?thesis by blast
qed

text \<open>
  C2. Copying a valid chain \<open>c\<close> succeeds and gives a chain \<open>c2\<close> that holds the same
  actions in blocks of its own; \<open>c\<close> is as before. After any list of mutations of
  \<open>c2\<close> (appending an action, appending the blocks of \<open>c\<close>, clearing, reassigning),
  \<open>c\<close> has the same blocks and the same actions as before the mutations, and
  executing it on any arguments hands back what it did before. The same holds with the
  two chains exchanged: mutating \<open>c\<close> leaves \<open>c2\<close> as it was.
\<close>

theorem copy_is_independent:
  assumes "valid_blocks h (m_blocks c)"
  shows "\<exists>c2 h1. ExecutionChain_copy c h = Inr (c2, h1)
           \<and> contents h1 (m_blocks c2) = contents h (m_blocks c)
           \<and> contents h1 (m_blocks c) = contents h (m_blocks c)
           \<and> (\<forall>ms. \<exists>c2' h2. mutate_all ms c2 c h1 = Inr (c2', h2)
                  \<and> footprint h2 (m_blocks c) = footprint h1 (m_blocks c)
                  \<and> contents h2 (m_blocks c) = contents h1 (m_blocks c)
                  \<and> (\<forall>s. arguments_after (Execute c s h2) = arguments_after (Execute c s h1)))
           \<and> (\<forall>ms. \<exists>c' h2. mutate_all ms c c2 h1 = Inr (c', h2)
                  \<and> footprint h2 (m_blocks c2) = footprint h1 (m_blocks c2)
                  \<and> contents h2 (m_blocks c2) = contents h1 (m_blocks c2)
                  \<and> (\<forall>s. arguments_after (Execute c2 s h2) = arguments_after (Execute c2 s h1)))"
proof -
  from ExecutionChain_copy_valid [OF assms] obtain c2 h1 where
    c: "ExecutionChain_copy c h = Inr (c2, h1)"
    and v1: "valid_blocks h1 (m_blocks c)" and v2: "valid_blocks h1 (m_blocks c2)"
    and c1: "contents h1 (m_blocks c) = contents h (m_blocks c)"
    and c2: "contents h1 (m_blocks c2) = contents h (m_blocks c)"
    and d: "set (footprint h1 (m_blocks c)) \<inter> set (footprint h1 (m_blocks c2)) = {}"
    by blast
  from d have d': "set (footprint h1 (m_blocks c2)) \<inter> set (footprint h1 (m_blocks c)) = {}"
    by blast
  have a: "\<exists>c2' h2. mutate_all ms c2 c h1 = Inr (c2', h2)
                  \<and> footprint h2 (m_blocks c) = footprint h1 (m_blocks c)
                  \<and> contents h2 (m_blocks c) = contents h1 (m_blocks c)
                  \<and> (\<forall>s. arguments_after (Execute c s h2) = arguments_after (Execute c s h1))" for ms
    using mutate_all_behaviour [OF v2 v1 d', of ms] by blast
  have b: "\<exists>c' h2. mutate_all ms c c2 h1 = Inr (c', h2)
                  \<and> footprint h2 (m_blocks c2) = footprint h1 (m_blocks c2)
                  \<and> contents h2 (m_blocks c2) = contents h1 (m_blocks c2)
                  \<and> (\<forall>s. arguments_after (Execute c2 s h2) = arguments_after (Execute c2 s h1))" for ms
    using mutate_all_behaviour [OF v1 v2 d, of ms] by blast
  from c c1 c2 a b show ?thesis by blast
qed

text \<open>
  The chain holding \<open>add_one\<close> and its copy, each mutated in turn while the other still maps
  \<open>0\<close> to \<open>1\<close>.
\<close>

theorem copy_is_independent_witness:
  "valid_blocks one_block_heap (m_blocks one_block_chain)
   \<and> (\<exists>c2 h1. ExecutionChain_copy one_block_chain one_block_heap = Inr (c2, h1)
        \<and> (\<exists>c2' h2. mutate_all [Append times_four, AppendChain, Clear, Reassign times_four]
                        c2 one_block_chain h1 = Inr (c2', h2)
              \<and> arguments_after (Execute one_block_chain (0::int) h2) = Inr 1
              \<and> arguments_after (Execute c2' (1::int) h2) = Inr 4)
        \<and> (\<exists>c' h2. mutate_all [Append times_four, AppendChain, Clear, Reassign times_four]
                        one_block_chain c2 h1 = Inr (c', h2)
              \<and> arguments_after (Execute c2 (0::int) h2) = Inr 1
              \<and> arguments_after (Execute c' (1::int) h2) = Inr 4))"
  using copy_is_independent [of one_block_heap one_block_chain]
  by (simp add: add_one_def times_four_def one_block_heap_def one_block_chain_def
        valid_blocks_def footprint_def contents_def cells_def content_def block_view_def
        lookup_def Execute_def get_def ExecutionBlock_Execute_def update_cell_def Let_def
        append_action_def create_block_def allocate_def polymorphic_value_from_unique_ptr_def
        typeid_def ExecutionChain_default_def
        append_chain_def polymorphic_value_copy_def clone_def
        clear_def reset_def delete_object_def deallocate_def
        operator_assign_from_def operator_pipe_assign_def ExecutionChain_copy_def
        arguments_after_def)

end
